theory Spec2Isabelle
  imports Main "HOL-Library.Sublist"
begin

section \<open>Python strings\<close>

text \<open>
  A Python \<open>str\<close> is modelled as a \<open>string\<close> in which every \<open>char\<close> is one code point
  (the code points below 256). The functions below are the \<open>str\<close> methods and the
  regular expressions that \<open>generate_plan.py\<close> uses, on that range.
\<close>

definition is_space :: "char \<Rightarrow> bool" where
  \<comment> \<open>\<open>str.isspace\<close> on one character; the class \<open>\s\<close> of \<open>re\<close> on \<open>str\<close> patterns.\<close>
  "is_space c =
     (let n = (of_char c :: nat)
      in (9 \<le> n \<and> n \<le> 13) \<or> (28 \<le> n \<and> n \<le> 32) \<or> n = 133 \<or> n = 160)"

definition is_digit :: "char \<Rightarrow> bool" where
  \<comment> \<open>the class \<open>\d\<close> of \<open>re\<close>.\<close>
  "is_digit c = (let n = (of_char c :: nat) in 48 \<le> n \<and> n \<le> 57)"

definition strip :: "string \<Rightarrow> string" where
  \<comment> \<open>\<open>s.strip()\<close>\<close>
  "strip s = rev (dropWhile is_space (rev (dropWhile is_space s)))"

definition lower_char :: "char \<Rightarrow> char" where
  "lower_char c =
     (let n = (of_char c :: nat)
      in if (65 \<le> n \<and> n \<le> 90) \<or> (192 \<le> n \<and> n \<le> 222 \<and> n \<noteq> 215)
         then char_of (n + 32) else c)"

definition lower :: "string \<Rightarrow> string" where
  \<comment> \<open>\<open>s.lower()\<close>\<close>
  "lower s = map lower_char s"

fun join :: "string \<Rightarrow> string list \<Rightarrow> string" where
  \<comment> \<open>\<open>sep.join(xs)\<close>\<close>
  "join sep [] = []"
| "join sep [x] = x"
| "join sep (x # y # ys) = x @ sep @ join sep (y # ys)"

lemma dropWhile_word_shorter:
  assumes "dropWhile is_space s \<noteq> []"
  shows "length (dropWhile (\<lambda>c. \<not> is_space c) (dropWhile is_space s)) < length s"
proof -
  obtain c cs where eq: "dropWhile is_space s = c # cs"
    using assms by (cases "dropWhile is_space s") auto
  have "\<not> is_space c"
    using hd_dropWhile [of is_space s] eq by simp
  then have "length (dropWhile (\<lambda>c. \<not> is_space c) (dropWhile is_space s)) \<le> length cs"
    using eq by (simp add: length_dropWhile_le)
  also have "length cs < length (dropWhile is_space s)"
    using eq by simp
  also have "\<dots> \<le> length s"
    by (rule length_dropWhile_le)
  finally show ?thesis .
qed

function split_ws :: "string \<Rightarrow> string list" where
  \<comment> \<open>\<open>s.split()\<close>: the maximal runs of non-whitespace characters.\<close>
  "split_ws s =
     (let t = dropWhile is_space s
      in if t = [] then []
         else takeWhile (\<lambda>c. \<not> is_space c) t # split_ws (dropWhile (\<lambda>c. \<not> is_space c) t))"
  by pat_completeness auto
termination
  by (relation "measure length") (auto simp: dropWhile_word_shorter simp del: dropWhile_eq_Nil_conv)

declare split_ws.simps [simp del]

function re_sub_ws :: "string \<Rightarrow> string" where
  \<comment> \<open>\<open>re.sub(r"\s+", " ", s)\<close>: every maximal run of whitespace becomes one space.\<close>
  "re_sub_ws [] = []"
| "re_sub_ws (c # cs) =
     (if is_space c then CHR '' '' # re_sub_ws (dropWhile is_space cs)
      else c # re_sub_ws cs)"
  by pat_completeness auto
termination
  by (relation "measure length") (auto simp: less_Suc_eq_le length_dropWhile_le)

definition digit_char :: "nat \<Rightarrow> char" where
  "digit_char d = char_of (48 + d)"

function str_nat :: "nat \<Rightarrow> string" where
  "str_nat n = (if n < 10 then [digit_char n] else str_nat (n div 10) @ [digit_char (n mod 10)])"
  by pat_completeness auto
termination
  by (relation "measure id") auto

declare str_nat.simps [simp del]

definition str_int :: "int \<Rightarrow> string" where
  \<comment> \<open>\<open>str(i)\<close> of an \<open>int\<close>\<close>
  "str_int i = (if i < 0 then CHR ''-'' # str_nat (nat (- i)) else str_nat (nat i))"

section \<open>Python values\<close>

text \<open>
  The values \<open>json.loads\<close> produces. A \<open>float\<close> is kept as the shortest decimal digits
  that \<open>repr\<close> prints: \<open>PyFinite neg m decpt\<close> is the number \<open>0.d\<^sub>1\<dots>d\<^sub>n \<times> 10^decpt\<close>
  where \<open>d\<^sub>1\<dots>d\<^sub>n\<close> are the digits of \<open>m\<close>. A \<open>dict\<close> is the list of its items in
  insertion order; its keys are distinct, and a lookup takes the first item with the key.
\<close>

datatype pyfloat = PyNaN | PyInf bool | PyFinite bool nat int

datatype pyval =
    PNone
  | PBool bool
  | PInt int
  | PFloat pyfloat
  | PStr string
  | PList "pyval list"
  | PDict "(string \<times> pyval) list"

datatype error =
    AttributeError | SystemExit | RuntimeError | TimeoutExpired | JSONDecodeError
  | OSError | UnicodeEncodeError

definition float_repr :: "pyfloat \<Rightarrow> string" where
  \<comment> \<open>\<open>repr\<close> of a \<open>float\<close>: exponent form when \<open>decpt \<le> -4\<close> or \<open>decpt > 16\<close>.\<close>
  "float_repr f =
     (case f of
        PyNaN \<Rightarrow> ''nan''
      | PyInf neg \<Rightarrow> (if neg then ''-inf'' else ''inf'')
      | PyFinite neg m decpt \<Rightarrow>
          (let sign = (if neg then ''-'' else []);
               ds = str_nat m;
               n = int (length ds)
           in if m = 0 then sign @ ''0.0''
              else if decpt \<le> - 4 \<or> decpt > 16 then
                (let e = decpt - 1;
                     es = str_nat (nat \<bar>e\<bar>)
                 in sign @ [hd ds] @ (if tl ds = [] then [] else CHR ''.'' # tl ds)
                      @ ''e'' @ (if e < 0 then ''-'' else ''+'')
                      @ (if length es < 2 then CHR ''0'' # es else es))
              else if decpt \<le> 0 then sign @ ''0.'' @ replicate (nat (- decpt)) CHR ''0'' @ ds
              else if decpt \<ge> n then sign @ ds @ replicate (nat (decpt - n)) CHR ''0'' @ ''.0''
              else sign @ take (nat decpt) ds @ ''.'' @ drop (nat decpt) ds))"

definition is_printable :: "char \<Rightarrow> bool" where
  \<comment> \<open>\<open>str.isprintable\<close> on one character\<close>
  "is_printable c =
     (let n = (of_char c :: nat)
      in (32 \<le> n \<and> n < 127) \<or> (160 < n \<and> n \<noteq> 173))"

definition hex_digit :: "nat \<Rightarrow> char" where
  "hex_digit d = (if d < 10 then char_of (48 + d) else char_of (87 + d))"

definition repr_char :: "char \<Rightarrow> char \<Rightarrow> string" where
  \<comment> \<open>one character of \<open>repr(s)\<close>, inside the quote character \<open>q\<close>\<close>
  "repr_char q c =
     (if c = q \<or> c = CHR 0x5C then [CHR 0x5C, c]
      else if c = CHR 0x09 then [CHR 0x5C, CHR ''t'']
      else if c = CHR 0x0A then [CHR 0x5C, CHR ''n'']
      else if c = CHR 0x0D then [CHR 0x5C, CHR ''r'']
      else if is_printable c then [c]
      else [CHR 0x5C, CHR ''x'', hex_digit (of_char c div 16), hex_digit (of_char c mod 16)])"

definition repr_str :: "string \<Rightarrow> string" where
  \<comment> \<open>\<open>repr(s)\<close> of a \<open>str\<close>: double quotes only when \<open>s\<close> has a single quote and no
      double quote.\<close>
  "repr_str s =
     (let q = (if CHR 0x27 \<in> set s \<and> CHR 0x22 \<notin> set s then CHR 0x22 else CHR 0x27)
      in q # concat (map (repr_char q) s) @ [q])"

fun py_repr :: "pyval \<Rightarrow> string" where
  "py_repr PNone = ''None''"
| "py_repr (PBool b) = (if b then ''True'' else ''False'')"
| "py_repr (PInt i) = str_int i"
| "py_repr (PFloat f) = float_repr f"
| "py_repr (PStr s) = repr_str s"
| "py_repr (PList xs) = ''['' @ join '', '' (map py_repr xs) @ '']''"
| "py_repr (PDict kvs) =
     ''{'' @ join '', '' (map (\<lambda>kv. repr_str (fst kv) @ '': '' @ py_repr (snd kv)) kvs) @ ''}''"

definition py_str :: "pyval \<Rightarrow> string" where
  \<comment> \<open>\<open>str(x)\<close>\<close>
  "py_str x = (case x of PStr s \<Rightarrow> s | _ \<Rightarrow> py_repr x)"

definition py_truthy :: "pyval \<Rightarrow> bool" where
  \<comment> \<open>the truth value of \<open>x\<close>, as \<open>x or y\<close> tests it\<close>
  "py_truthy x =
     (case x of
        PNone \<Rightarrow> False
      | PBool b \<Rightarrow> b
      | PInt i \<Rightarrow> i \<noteq> 0
      | PFloat f \<Rightarrow> (case f of PyFinite _ m _ \<Rightarrow> m \<noteq> 0 | _ \<Rightarrow> True)
      | PStr s \<Rightarrow> s \<noteq> []
      | PList xs \<Rightarrow> xs \<noteq> []
      | PDict kvs \<Rightarrow> kvs \<noteq> [])"

definition isinstance_int :: "pyval \<Rightarrow> bool" where
  \<comment> \<open>\<open>isinstance(x, int)\<close>: \<open>bool\<close> is a subclass of \<open>int\<close>.\<close>
  "isinstance_int x = (case x of PInt _ \<Rightarrow> True | PBool _ \<Rightarrow> True | _ \<Rightarrow> False)"

definition dict_get :: "(string \<times> pyval) list \<Rightarrow> string \<Rightarrow> pyval \<Rightarrow> pyval" where
  \<comment> \<open>\<open>d.get(k, default)\<close> on a \<open>dict\<close>\<close>
  "dict_get d k dflt = (case map_of d k of Some v \<Rightarrow> v | None \<Rightarrow> dflt)"

definition py_get :: "pyval \<Rightarrow> string \<Rightarrow> pyval \<Rightarrow> error + pyval" where
  \<comment> \<open>\<open>x.get(k, default)\<close> on any value: only a \<open>dict\<close> has the attribute \<open>get\<close>.\<close>
  "py_get x k dflt = (case x of PDict d \<Rightarrow> Inr (dict_get d k dflt) | _ \<Rightarrow> Inl AttributeError)"

section \<open>The normalizer\<close>

definition unknown_synonyms :: "string list" where
  "unknown_synonyms = [''unknown'', ''n/a'', ''na'', ''not specified'', ''not stated'']"

definition normalize_unknown :: "pyval \<Rightarrow> string" where
  "normalize_unknown x =
     (case x of
        PNone \<Rightarrow> ''Unknown''
      | PStr x' \<Rightarrow>
          (let s = strip x'
           in if s = [] then ''Unknown''
              else if lower s \<in> set unknown_synonyms then ''Unknown''
              else s)
      | _ \<Rightarrow> py_str x)"

section \<open>The evidence formatter\<close>

definition normalize_quote :: "pyval \<Rightarrow> error + string" where
  \<comment> \<open>\<open>(q or "")\<close> is \<open>q\<close> when \<open>q\<close> is truthy; only a \<open>str\<close> has the method \<open>strip\<close>.\<close>
  "normalize_quote q =
     (case (if py_truthy q then q else PStr []) of
        PStr s \<Rightarrow>
          (let q1 = strip s;
               q2 = re_sub_ws q1
           in if length (split_ws q2) > 40
              then Inr (join '' '' (take 40 (split_ws q2)) @ ''...'')
              else Inr q2)
      | _ \<Rightarrow> Inl AttributeError)"

definition entry_line :: "pyval \<Rightarrow> string \<Rightarrow> string" where
  "entry_line page quote =
     (if isinstance_int page
      then ''(p.'' @ py_str page @ '') '' @ [CHR 0x22] @ quote @ [CHR 0x22]
      else ''(p.?) '' @ [CHR 0x22] @ quote @ [CHR 0x22])"

fun format_evidence_items :: "pyval list \<Rightarrow> error + string list" where
  \<comment> \<open>the loop \<open>for item in ev\<close>: the lines it appends, in order\<close>
  "format_evidence_items [] = Inr []"
| "format_evidence_items (item # rest) =
     (case item of
        PDict d \<Rightarrow>
          (let page = dict_get d ''page'' PNone;
               quote = dict_get d ''quote'' (PStr [])
           in case normalize_quote quote of
                Inl e \<Rightarrow> Inl e
              | Inr quote' \<Rightarrow>
                  if quote' = [] then format_evidence_items rest
                  else (case format_evidence_items rest of
                          Inl e \<Rightarrow> Inl e
                        | Inr lines \<Rightarrow> Inr (entry_line page quote' # lines)))
      | _ \<Rightarrow> format_evidence_items rest)"

definition format_evidence_list :: "pyval \<Rightarrow> error + string list" where
  "format_evidence_list ev =
     (case ev of PList items \<Rightarrow> format_evidence_items items | _ \<Rightarrow> Inr [])"

fun match_page :: "string \<Rightarrow> string option" where
  \<comment> \<open>the pattern \<open>\(p\.(\d+)\)\<close> matched at the start of the string: its group 1\<close>
  "match_page (a # b # c # rest) =
     (if a = CHR ''('' \<and> b = CHR ''p'' \<and> c = CHR ''.''
      then (let ds = takeWhile is_digit rest
            in if ds \<noteq> [] \<and> take 1 (dropWhile is_digit rest) = '')'' then Some ds else None)
      else None)"
| "match_page _ = None"

fun re_search_page :: "string \<Rightarrow> string option" where
  \<comment> \<open>\<open>re.search\<close>: the leftmost match\<close>
  "re_search_page [] = None"
| "re_search_page (c # cs) =
     (case match_page (c # cs) of Some ds \<Rightarrow> Some ds | None \<Rightarrow> re_search_page cs)"

definition extract_page :: "string \<Rightarrow> string" where
  "extract_page evidence_line =
     (case re_search_page evidence_line of Some ds \<Rightarrow> ds | None \<Rightarrow> ''?'')"

section \<open>The section extractors\<close>

definition extract_objective_text :: "pyval \<Rightarrow> error + string" where
  "extract_objective_text plan =
     (case py_get plan ''objective'' (PDict []) of
        Inl e \<Rightarrow> Inl e
      | Inr obj \<Rightarrow>
          (case obj of
             PDict d \<Rightarrow> Inr (normalize_unknown (dict_get d ''text'' PNone))
           | _ \<Rightarrow> Inr ''Unknown''))"

definition extract_objective_with_evidence :: "pyval \<Rightarrow> error + string \<times> string list" where
  "extract_objective_with_evidence plan =
     (case py_get plan ''objective'' (PDict []) of
        Inl e \<Rightarrow> Inl e
      | Inr obj \<Rightarrow>
          (case obj of
             PDict d \<Rightarrow>
               (let text = normalize_unknown (dict_get d ''text'' PNone);
                    ev = dict_get d ''evidence'' (PList [])
                in case format_evidence_list ev of
                     Inl e \<Rightarrow> Inl e
                   | Inr ev_lines \<Rightarrow> Inr (text, ev_lines))
           | _ \<Rightarrow> Inr (''Unknown'', [])))"

fun list_text_items :: "pyval list \<Rightarrow> string list" where
  \<comment> \<open>the loop \<open>for it in raw_items\<close> of \<open>extract_list_text\<close>: the texts it appends\<close>
  "list_text_items [] = []"
| "list_text_items (it # rest) =
     (case it of
        PDict d \<Rightarrow>
          (let t = normalize_unknown (dict_get d ''text'' PNone)
           in if t \<noteq> ''Unknown'' then t # list_text_items rest else list_text_items rest)
      | _ \<Rightarrow> list_text_items rest)"

fun numbered_lines :: "nat \<Rightarrow> string list \<Rightarrow> string list" where
  \<comment> \<open>the loop \<open>for i, t in enumerate(items, i)\<close>\<close>
  "numbered_lines i [] = []"
| "numbered_lines i (t # ts) = (str_nat i @ ''. '' @ t @ ''\<newline>'') # numbered_lines (Suc i) ts"

definition extract_list_text :: "pyval \<Rightarrow> string \<Rightarrow> error + string" where
  "extract_list_text plan key =
     (case py_get plan key (PDict []) of
        Inl e \<Rightarrow> Inl e
      | Inr sec \<Rightarrow>
          (let items =
                 (case sec of
                    PDict d \<Rightarrow>
                      (case dict_get d ''items'' (PList []) of
                         PList raw_items \<Rightarrow> list_text_items raw_items
                       | _ \<Rightarrow> [])
                  | _ \<Rightarrow> [])
           in if items = [] then Inr ''Unknown''
              else Inr (strip (concat (numbered_lines 1 items)))))"

definition item_label :: "string \<Rightarrow> nat \<Rightarrow> string" where
  \<comment> \<open>\<open>H{idx if key=='hypothesis' else 'M'+str(idx)}\<close>\<close>
  "item_label key idx =
     (if key = ''hypothesis'' then ''H'' @ str_nat idx else ''H'' @ ''M'' @ str_nat idx)"

fun list_evidence_items :: "string \<Rightarrow> nat \<Rightarrow> pyval list \<Rightarrow> error + string list" where
  \<comment> \<open>the loop \<open>for idx, it in enumerate(raw_items, idx)\<close>: the prefixed lines it appends.
      The loop also computes \<open>t = normalize_unknown(it.get("text"))\<close>, which cannot raise and
      is never used.\<close>
  "list_evidence_items key idx [] = Inr []"
| "list_evidence_items key idx (it # rest) =
     (case it of
        PDict d \<Rightarrow>
          (case format_evidence_list (dict_get d ''evidence'' (PList [])) of
             Inl e \<Rightarrow> Inl e
           | Inr ev_lines \<Rightarrow>
               (case list_evidence_items key (Suc idx) rest of
                  Inl e \<Rightarrow> Inl e
                | Inr lines \<Rightarrow>
                    Inr (map (\<lambda>e. item_label key idx @ '' (p.'' @ extract_page e @ ''): '' @ e)
                           (take 2 ev_lines) @ lines)))
      | _ \<Rightarrow> list_evidence_items key (Suc idx) rest)"

fun after_first :: "string \<Rightarrow> string \<Rightarrow> string option" where
  \<comment> \<open>what follows the first occurrence of \<open>sep\<close>, if there is one\<close>
  "after_first sep [] = (if sep = [] then Some [] else None)"
| "after_first sep (c # cs) =
     (if prefix sep (c # cs) then Some (drop (length sep) (c # cs)) else after_first sep cs)"

definition strip_label :: "string \<Rightarrow> string" where
  \<comment> \<open>\<open>ln.split(": ", 1)[-1] if ": " in ln else ln\<close>\<close>
  "strip_label ln = (case after_first '': '' ln of Some r \<Rightarrow> r | None \<Rightarrow> ln)"

definition extract_list_evidence_lines :: "pyval \<Rightarrow> string \<Rightarrow> error + string list" where
  "extract_list_evidence_lines plan key =
     (case py_get plan key (PDict []) of
        Inl e \<Rightarrow> Inl e
      | Inr sec \<Rightarrow>
          (case sec of
             PDict d \<Rightarrow>
               (case dict_get d ''items'' (PList []) of
                  PList raw_items \<Rightarrow>
                    (case list_evidence_items key 1 raw_items of
                       Inl e \<Rightarrow> Inl e
                     | Inr lines \<Rightarrow> if lines \<noteq> [] then Inr (map strip_label lines) else Inr [])
                | _ \<Rightarrow> Inr [])
           | _ \<Rightarrow> Inr []))"

fun experiment_blocks :: "bool \<Rightarrow> pyval list \<Rightarrow> error + string list" where
  \<comment> \<open>the loop \<open>for it in raw_items\<close> of \<open>extract_experiments_text\<close>: the blocks it appends\<close>
  "experiment_blocks include_evidence [] = Inr []"
| "experiment_blocks include_evidence (it # rest) =
     (case it of
        PDict d \<Rightarrow>
          (let name = normalize_unknown (dict_get d ''name'' PNone)
           in if name = ''Unknown'' then experiment_blocks include_evidence rest
              else
                (let what_varied = normalize_unknown (dict_get d ''what_varied'' PNone);
                     metric = normalize_unknown (dict_get d ''metric'' PNone);
                     main_result = normalize_unknown (dict_get d ''main_result'' PNone)
                 in case format_evidence_list (dict_get d ''evidence'' (PList [])) of
                      Inl e \<Rightarrow> Inl e
                    | Inr ev_lines \<Rightarrow>
                        (let block =
                               [''### '' @ name @ ''\<newline>'',
                                ''- What varied: '' @ what_varied @ ''\<newline>'',
                                ''- Metric: '' @ metric @ ''\<newline>'',
                                ''- Main result: '' @ main_result @ ''\<newline>'']
                               @ (if include_evidence \<and> ev_lines \<noteq> []
                                  then ''- Evidence:\<newline>''
                                       # map (\<lambda>e. ''  - '' @ e @ ''\<newline>'') (take 2 ev_lines)
                                  else [])
                         in case experiment_blocks include_evidence rest of
                              Inl e \<Rightarrow> Inl e
                            | Inr exps \<Rightarrow> Inr (concat block # exps))))
      | _ \<Rightarrow> experiment_blocks include_evidence rest)"

definition extract_experiments_text :: "pyval \<Rightarrow> bool \<Rightarrow> error + string" where
  "extract_experiments_text plan include_evidence =
     (case py_get plan ''experiments'' (PDict []) of
        Inl e \<Rightarrow> Inl e
      | Inr sec \<Rightarrow>
          (case sec of
             PDict d \<Rightarrow>
               (case dict_get d ''items'' (PList []) of
                  PList raw_items \<Rightarrow>
                    if raw_items = [] then Inr ''Unknown''
                    else (case experiment_blocks include_evidence raw_items of
                            Inl e \<Rightarrow> Inl e
                          | Inr exps \<Rightarrow>
                              if exps = [] then Inr ''Unknown''
                              else Inr (strip (join ''\<newline>'' exps)))
                | _ \<Rightarrow> Inr ''Unknown'')
           | _ \<Rightarrow> Inr ''Unknown''))"

section \<open>The two renderers\<close>

definition render_plan_md_concise :: "pyval \<Rightarrow> error + string" where
  "render_plan_md_concise plan =
     (case extract_objective_text plan of Inl e \<Rightarrow> Inl e | Inr obj \<Rightarrow>
      case extract_list_text plan ''hypothesis'' of Inl e \<Rightarrow> Inl e | Inr hyp \<Rightarrow>
      case extract_list_text plan ''methodology'' of Inl e \<Rightarrow> Inl e | Inr meth \<Rightarrow>
      case extract_experiments_text plan False of Inl e \<Rightarrow> Inl e | Inr exps \<Rightarrow>
        Inr (concat
          [''# Plan\<newline>'',
           ''## Objective\<newline>'',
           obj @ ''\<newline>\<newline>'',
           ''## Hypothesis\<newline>'',
           hyp @ ''\<newline>\<newline>'',
           ''## Methodology\<newline>'',
           meth @ ''\<newline>\<newline>'',
           ''## Experiments\<newline>'',
           exps @ ''\<newline>'']))"

definition evidence_block :: "string list \<Rightarrow> string list" where
  \<comment> \<open>\<open>if lines: md.append("\n**Evidence**:\n"); for ln in lines: md.append(f"- {ln}\n")\<close>\<close>
  "evidence_block lines =
     (if lines \<noteq> []
      then ''\<newline>**Evidence**:\<newline>'' # map (\<lambda>ln. ''- '' @ ln @ ''\<newline>'') lines
      else [])"

definition unknowns_block :: "pyval list \<Rightarrow> string list" where
  "unknowns_block unknowns =
     (if unknowns \<noteq> []
      then map (\<lambda>u. ''- '' @ normalize_unknown u @ ''\<newline>'') unknowns
      else [''- (none)\<newline>''])"

definition render_plan_md_with_evidence :: "pyval \<Rightarrow> error + string" where
  "render_plan_md_with_evidence plan =
     (case extract_objective_with_evidence plan of Inl e \<Rightarrow> Inl e | Inr (obj_text, obj_ev) \<Rightarrow>
      case extract_list_text plan ''hypothesis'' of Inl e \<Rightarrow> Inl e | Inr hyp_text \<Rightarrow>
      case extract_list_evidence_lines plan ''hypothesis'' of Inl e \<Rightarrow> Inl e | Inr hyp_ev_lines \<Rightarrow>
      case extract_list_text plan ''methodology'' of Inl e \<Rightarrow> Inl e | Inr meth_text \<Rightarrow>
      case extract_list_evidence_lines plan ''methodology'' of Inl e \<Rightarrow> Inl e | Inr meth_ev_lines \<Rightarrow>
      case extract_experiments_text plan True of Inl e \<Rightarrow> Inl e | Inr exps_text \<Rightarrow>
      case py_get plan ''unknowns'' (PList []) of Inl e \<Rightarrow> Inl e | Inr unknowns0 \<Rightarrow>
        (let unknowns = (case unknowns0 of PList us \<Rightarrow> us | _ \<Rightarrow> [])
         in Inr (concat
              ([''# Plan (with evidence)\<newline>'',
                ''## Objective\<newline>'',
                obj_text @ ''\<newline>'']
               @ evidence_block obj_ev
               @ [''\<newline>'',
                  ''## Hypothesis\<newline>'',
                  hyp_text @ ''\<newline>'']
               @ evidence_block hyp_ev_lines
               @ [''\<newline>'',
                  ''## Methodology\<newline>'',
                  meth_text @ ''\<newline>'']
               @ evidence_block meth_ev_lines
               @ [''\<newline>'',
                  ''## Experiments\<newline>'',
                  exps_text @ ''\<newline>'',
                  ''\<newline>## Unknowns\<newline>'']
               @ unknowns_block unknowns))))"

section \<open>Properties of the normalizer\<close>

lemma normalize_unknown_examples:
  "normalize_unknown (PStr ''  '') = ''Unknown''"
  "normalize_unknown (PStr ''N/A'') = ''Unknown''"
  "normalize_unknown (PStr ''Causal tracing'') = ''Causal tracing''"
  "normalize_unknown (PInt 3) = ''3''"
  by code_simp+

text \<open>
  Claim C9. \<open>normalize_unknown\<close> maps \<open>None\<close> to \<open>"Unknown"\<close>; it trims a string and maps it to
  \<open>"Unknown"\<close> when the trimmed string is empty or its lower-case form is one of
  \<open>unknown\<close>, \<open>n/a\<close>, \<open>na\<close>, \<open>not specified\<close>, \<open>not stated\<close>, and to the trimmed string
  itself otherwise; every other value (a bool, an int, a float, a list, a dict) is mapped to
  \<open>str\<close> of it. The function is total, so no case raises. The five examples of the
  specification are instances.
\<close>

theorem normalize_unknown_spec:
  "normalize_unknown PNone = ''Unknown''
   \<and> normalize_unknown (PStr s) =
       (if strip s = []
           \<or> lower (strip s) \<in> {''unknown'', ''n/a'', ''na'', ''not specified'', ''not stated''}
        then ''Unknown'' else strip s)
   \<and> normalize_unknown (PBool b) = py_str (PBool b)
   \<and> normalize_unknown (PInt i) = py_str (PInt i)
   \<and> normalize_unknown (PFloat f) = py_str (PFloat f)
   \<and> normalize_unknown (PList xs) = py_str (PList xs)
   \<and> normalize_unknown (PDict d) = py_str (PDict d)
   \<and> normalize_unknown (PStr ''  '') = ''Unknown''
   \<and> normalize_unknown (PStr ''N/A'') = ''Unknown''
   \<and> normalize_unknown (PStr ''Causal tracing'') = ''Causal tracing''
   \<and> normalize_unknown (PInt 3) = ''3''"
proof -
  have str: "normalize_unknown (PStr s) =
       (if strip s = []
           \<or> lower (strip s) \<in> {''unknown'', ''n/a'', ''na'', ''not specified'', ''not stated''}
        then ''Unknown'' else strip s)"
    by (simp add: normalize_unknown_def unknown_synonyms_def Let_def)
  have other:
    "normalize_unknown PNone = ''Unknown''"
    "normalize_unknown (PBool b) = py_str (PBool b)"
    "normalize_unknown (PInt i) = py_str (PInt i)"
    "normalize_unknown (PFloat f) = py_str (PFloat f)"
    "normalize_unknown (PList xs) = py_str (PList xs)"
    "normalize_unknown (PDict d) = py_str (PDict d)"
    by (simp_all add: normalize_unknown_def)
  show ?thesis
    using str other normalize_unknown_examples by blast
qed

section \<open>The list sections, as the specification words them\<close>

definition dicts_of :: "pyval list \<Rightarrow> (string \<times> pyval) list list" where
  \<comment> \<open>the elements that are mappings, in order\<close>
  "dicts_of xs = List.map_filter (\<lambda>x. case x of PDict d \<Rightarrow> Some d | _ \<Rightarrow> None) xs"

definition section_items :: "(string \<times> pyval) list \<Rightarrow> string \<Rightarrow> pyval list" where
  \<comment> \<open>\<open><key>.items\<close> of a Plan mapping: the list under \<open>items\<close> when the section is a mapping
      (an absent section counts as the empty mapping) and \<open>items\<close> is a list; nothing otherwise\<close>
  "section_items m key =
     (case dict_get m key (PDict []) of
        PDict d \<Rightarrow> (case dict_get d ''items'' (PList []) of PList xs \<Rightarrow> xs | _ \<Rightarrow> [])
      | _ \<Rightarrow> [])"

definition surviving_texts :: "(string \<times> pyval) list \<Rightarrow> string \<Rightarrow> string list" where
  \<comment> \<open>the normalized \<open>text\<close> of every item that is a mapping, those equal to \<open>"Unknown"\<close> dropped\<close>
  "surviving_texts m key =
     filter (\<lambda>t. t \<noteq> ''Unknown'')
       (map (\<lambda>d. normalize_unknown (dict_get d ''text'' PNone)) (dicts_of (section_items m key)))"

definition numbered_list :: "string list \<Rightarrow> string" where
  \<comment> \<open>the lines \<open>1. t\<^sub>1\<close>, \<open>2. t\<^sub>2\<close>, \<dots> separated by newlines\<close>
  "numbered_list ts =
     join ''\<newline>'' (map (\<lambda>(i, t). str_nat i @ ''. '' @ t) (List.enumerate 1 ts))"

definition clean :: "string \<Rightarrow> bool" where
  \<comment> \<open>a non-empty string with no whitespace at either end: \<open>strip\<close> leaves it as it is\<close>
  "clean s = (s \<noteq> [] \<and> \<not> is_space (hd s) \<and> \<not> is_space (last s))"

section \<open>Strings that \<open>strip\<close> leaves alone\<close>

lemma strip_clean_append:
  assumes "clean s" and "list_all is_space ws"
  shows "strip (s @ ws) = s"
proof -
  from assms(1) obtain c cs where s: "s = c # cs" and c: "\<not> is_space c"
    by (cases s) (auto simp: clean_def)
  have front: "dropWhile is_space (s @ ws) = s @ ws"
    using s c by simp
  have "dropWhile is_space (rev ws @ rev s) = dropWhile is_space (rev s)"
    using assms(2) by (intro dropWhile_append2) (simp add: list_all_iff)
  also have "\<dots> = rev s"
    using assms(1) by (cases "rev s") (auto simp: clean_def last_rev hd_rev)
  finally show ?thesis
    by (simp add: strip_def front)
qed

lemma last_dropWhile:
  assumes "dropWhile P xs \<noteq> []"
  shows "last (dropWhile P xs) = last xs"
proof -
  have "xs = takeWhile P xs @ dropWhile P xs" by simp
  then have "last xs = last (takeWhile P xs @ dropWhile P xs)" by simp
  also have "\<dots> = last (dropWhile P xs)" using assms by (rule last_appendR)
  finally show ?thesis by simp
qed

lemma clean_strip:
  assumes "strip s \<noteq> []"
  shows "clean (strip s)"
proof -
  define u where "u = dropWhile is_space s"
  define v where "v = dropWhile is_space (rev u)"
  have sv: "strip s = rev v" by (simp add: strip_def u_def v_def)
  with assms have v: "v \<noteq> []" by simp
  then have ru: "rev u \<noteq> []" by (auto simp: v_def)
  then have u: "u \<noteq> []" by simp
  have "\<not> is_space (hd v)"
    using v unfolding v_def by (rule hd_dropWhile)
  then have l: "\<not> is_space (last (rev v))"
    using v by (simp add: last_rev)
  have "last v = last (rev u)"
    using v unfolding v_def by (rule last_dropWhile)
  also have "\<dots> = hd u" using u by (simp add: last_rev)
  finally have "hd (rev v) = hd u" using v by (simp add: hd_rev)
  moreover have "\<not> is_space (hd u)"
    using u unfolding u_def by (rule hd_dropWhile)
  ultimately show ?thesis
    using l v by (simp add: clean_def sv)
qed

lemma is_digit_digit_char: "d < 10 \<Longrightarrow> is_digit (digit_char d)"
  by (simp add: is_digit_def digit_char_def)

lemma str_nat_digits: "list_all is_digit (str_nat n)"
proof (induction n rule: str_nat.induct)
  case (1 n)
  show ?case
  proof (cases "n < 10")
    case True
    then show ?thesis by (subst str_nat.simps) (simp add: is_digit_digit_char)
  next
    case False
    with 1 show ?thesis by (subst str_nat.simps) (simp add: is_digit_digit_char)
  qed
qed

lemma str_nat_nonempty: "str_nat n \<noteq> []"
  by (subst str_nat.simps) simp

lemma digit_not_space: "is_digit c \<Longrightarrow> \<not> is_space c"
  by (auto simp: is_digit_def is_space_def Let_def)


lemma float_repr_nonempty: "float_repr f \<noteq> []"
  by (cases f) (auto simp: float_repr_def Let_def)

definition float_char :: "char \<Rightarrow> bool" where
  "float_char c = (is_digit c \<or> c \<in> set ''-+.enaif'')"

lemma float_char_not_space: "float_char c \<Longrightarrow> \<not> is_space c"
  by (auto simp: float_char_def is_digit_def is_space_def Let_def)

lemma str_nat_float_chars: "c \<in> set (str_nat n) \<Longrightarrow> float_char c"
  using str_nat_digits [of n] by (auto simp: list_all_iff float_char_def)

lemma float_repr_chars: "c \<in> set (float_repr f) \<Longrightarrow> float_char c"
proof (cases f)
  case PyNaN
  then show "c \<in> set (float_repr f) \<Longrightarrow> float_char c"
    by (auto simp: float_repr_def float_char_def)
next
  case (PyInf neg)
  then show "c \<in> set (float_repr f) \<Longrightarrow> float_char c"
    by (auto simp: float_repr_def float_char_def split: if_splits)
next
  case (PyFinite neg m decpt)
  have z: "float_char CHR ''0''" "float_char CHR ''-''" "float_char CHR ''+''"
    "float_char CHR ''.''" "float_char CHR ''e''"
    by (simp_all add: float_char_def is_digit_def)
  have hd: "float_char (hd (str_nat m))"
    using str_nat_nonempty [of m] str_nat_float_chars [of "hd (str_nat m)" m] by simp
  have tl: "\<And>x. x \<in> set (tl (str_nat m)) \<Longrightarrow> float_char x"
    using str_nat_nonempty [of m] str_nat_float_chars [of _ m] by (auto dest: list.set_sel(2))
  show "c \<in> set (float_repr f) \<Longrightarrow> float_char c"
    unfolding PyFinite float_repr_def Let_def
    by (auto simp: z hd tl str_nat_float_chars dest!: in_set_takeD in_set_dropD split: if_splits)
qed

lemma clean_float_repr: "clean (float_repr f)"
proof -
  have ne: "float_repr f \<noteq> []" by (rule float_repr_nonempty)
  then have "hd (float_repr f) \<in> set (float_repr f)" "last (float_repr f) \<in> set (float_repr f)"
    by simp_all
  then have "\<not> is_space (hd (float_repr f))" "\<not> is_space (last (float_repr f))"
    by (blast dest: float_repr_chars float_char_not_space)+
  then show ?thesis
    using ne by (simp add: clean_def)
qed

lemma clean_py_repr: "clean (py_repr x)"
proof (cases x)
  case PNone
  then show ?thesis by (simp add: clean_def is_space_def)
next
  case (PBool b)
  then show ?thesis by (simp add: clean_def is_space_def)
next
  case (PInt i)
  have ne: "str_nat n \<noteq> []" for n by (rule str_nat_nonempty)
  have "\<not> is_space (hd (str_nat n))" "\<not> is_space (last (str_nat n))" for n
    using str_nat_digits [of n] ne [of n]
    by (auto simp: list_all_iff intro!: digit_not_space)
  then show ?thesis
    using PInt ne by (auto simp: clean_def str_int_def is_space_def)
next
  case (PFloat f)
  then show ?thesis by (simp add: clean_float_repr)
next
  case (PStr s)
  then show ?thesis
    by (auto simp: clean_def repr_str_def Let_def is_space_def)
next
  case (PList xs)
  then show ?thesis by (simp add: clean_def is_space_def)
next
  case (PDict kvs)
  then show ?thesis by (simp add: clean_def is_space_def)
qed

lemma clean_Unknown: "clean ''Unknown''"
  by (simp add: clean_def is_space_def)

lemma clean_normalize_unknown: "clean (normalize_unknown x)"
  by (cases x)
    (auto simp: normalize_unknown_def Let_def clean_Unknown clean_strip py_str_def
          clean_py_repr [of "PBool b" for b, simplified] clean_py_repr [of "PInt i" for i, simplified]
          clean_py_repr [of "PFloat f" for f, simplified] clean_py_repr [of "PList l" for l, simplified]
          clean_py_repr [of "PDict l" for l, simplified])


lemma dicts_of_simps [simp]:
  "dicts_of [] = []"
  "dicts_of (PDict d # xs) = d # dicts_of xs"
  "dicts_of (PNone # xs) = dicts_of xs"
  "dicts_of (PBool b # xs) = dicts_of xs"
  "dicts_of (PInt i # xs) = dicts_of xs"
  "dicts_of (PFloat f # xs) = dicts_of xs"
  "dicts_of (PStr s # xs) = dicts_of xs"
  "dicts_of (PList l # xs) = dicts_of xs"
  by (simp_all add: dicts_of_def map_filter_simps)

lemma list_text_items_eq:
  "list_text_items xs =
     filter (\<lambda>t. t \<noteq> ''Unknown'')
       (map (\<lambda>d. normalize_unknown (dict_get d ''text'' PNone)) (dicts_of xs))"
proof (induction xs)
  case Nil
  show ?case by simp
next
  case (Cons x xs)
  then show ?case by (cases x) (simp_all add: Let_def)
qed

lemma numbered_lines_eq:
  "numbered_lines i ts =
     map (\<lambda>(j, t). str_nat j @ ''. '' @ t @ ''\<newline>'') (List.enumerate i ts)"
  by (induction ts arbitrary: i) simp_all

lemma concat_terminated:
  "xs \<noteq> [] \<Longrightarrow> concat (map (\<lambda>x. x @ sep) xs) = join sep xs @ sep"
  by (induction sep xs rule: join.induct) simp_all

lemma clean_join:
  "xs \<noteq> [] \<Longrightarrow> list_all clean xs \<Longrightarrow> clean (join sep xs)"
proof (induction sep xs rule: join.induct)
  case (3 sep x y ys)
  then have "clean (join sep (y # ys))" and x: "clean x" by simp_all
  then show ?case
    by (auto simp: clean_def hd_append)
qed simp_all

lemma clean_numbered_line:
  assumes "clean t"
  shows "clean (str_nat i @ ''. '' @ t)"
proof -
  have "\<not> is_space (hd (str_nat i))"
    using str_nat_digits [of i] str_nat_nonempty [of i]
    by (auto simp: list_all_iff intro!: digit_not_space)
  then show ?thesis
    using assms str_nat_nonempty [of i] by (simp add: clean_def hd_append)
qed

lemma list_all_clean_surviving: "list_all clean (surviving_texts m key)"
  by (auto simp: surviving_texts_def list_all_iff clean_normalize_unknown)

lemma strip_numbered_lines:
  assumes "ts \<noteq> []" and "list_all clean ts"
  shows "strip (concat (numbered_lines 1 ts)) = numbered_list ts"
proof -
  let ?ls = "map (\<lambda>(i, t). str_nat i @ ''. '' @ t) (List.enumerate 1 ts)"
  have "numbered_lines 1 ts = map (\<lambda>l. l @ ''\<newline>'') ?ls"
    by (simp add: numbered_lines_eq case_prod_unfold)
  moreover have ne: "?ls \<noteq> []"
    using assms(1) by (cases ts) simp_all
  ultimately have "concat (numbered_lines 1 ts) = join ''\<newline>'' ?ls @ ''\<newline>''"
    using concat_terminated [of ?ls "''\<newline>''"] by simp
  moreover have "list_all clean ?ls"
    using assms(2) by (auto simp: list_all_iff enumerate_eq_zip dest!: set_zip_rightD intro!: clean_numbered_line [simplified])
  then have "clean (join ''\<newline>'' ?ls)"
    using ne by (intro clean_join)
  moreover have "list_all is_space ''\<newline>''"
    by (simp add: is_space_def)
  ultimately show ?thesis
    by (simp add: numbered_list_def strip_clean_append)
qed

lemma extract_list_text_eq_aux:
  "extract_list_text (PDict m) key =
     Inr (if surviving_texts m key = [] then ''Unknown''
          else numbered_list (surviving_texts m key))"
proof -
  have items: "(case dict_get m key (PDict []) of
           PDict d \<Rightarrow>
             (case dict_get d ''items'' (PList []) of
                PList raw_items \<Rightarrow> list_text_items raw_items
              | _ \<Rightarrow> [])
         | _ \<Rightarrow> []) = surviving_texts m key"
    by (simp add: surviving_texts_def section_items_def list_text_items_eq
             split: pyval.splits)
  show ?thesis
    unfolding extract_list_text_def py_get_def
    using strip_numbered_lines [OF _ list_all_clean_surviving, of m key]
    by (simp add: items Let_def)
qed

lemma extract_list_text_example:
  "extract_list_text
     (PDict [(''hypothesis'', PDict [(''items'',
        PList [PDict [(''text'', PStr ''n/a'')], PDict [(''text'', PStr ''A'')],
               PDict [], PDict [(''text'', PStr ''B'')]])])])
     ''hypothesis'' = Inr ''1. A\<newline>2. B''"
  by code_simp

text \<open>
  Claim C2. For every Plan mapping and every key (so for \<open>hypothesis\<close> and \<open>methodology\<close>),
  \<open>extract_list_text\<close> returns the numbered list of the surviving texts: the normalized
  \<open>text\<close> of the items that are mappings, those normalizing to \<open>"Unknown"\<close> dropped, in input
  order, numbered from 1 without gaps, one per line; when no text survives it returns
  exactly \<open>"Unknown"\<close>. For items whose texts are \<open>n/a\<close>, \<open>A\<close>, absent, \<open>B\<close> the result is
  \<open>1. A\<close> then \<open>2. B\<close>.
\<close>

theorem extract_list_text_numbered:
  "extract_list_text (PDict m) key =
     Inr (if surviving_texts m key = [] then ''Unknown''
          else numbered_list (surviving_texts m key))
   \<and> numbered_list [''A'', ''B''] = ''1. A\<newline>2. B''
   \<and> extract_list_text
        (PDict [(''hypothesis'', PDict [(''items'',
           PList [PDict [(''text'', PStr ''n/a'')], PDict [(''text'', PStr ''A'')],
                  PDict [], PDict [(''text'', PStr ''B'')]])])])
        ''hypothesis'' = Inr ''1. A\<newline>2. B''"
proof -
  have "numbered_list [''A'', ''B''] = ''1. A\<newline>2. B''"
    by code_simp
  then show ?thesis
    using extract_list_text_eq_aux [of m key] extract_list_text_example by simp
qed

section \<open>Plans whose quotes the formatter can read\<close>

definition quote_ok :: "pyval \<Rightarrow> bool" where
  \<comment> \<open>a \<open>str\<close>, or a value that \<open>q or ""\<close> replaces by \<open>""\<close>\<close>
  "quote_ok q = (case q of PStr _ \<Rightarrow> True | _ \<Rightarrow> \<not> py_truthy q)"

fun quotes_ok :: "pyval \<Rightarrow> bool" where
  \<comment> \<open>no mapping anywhere in the value has a truthy non-string under the key \<open>quote\<close>\<close>
  "quotes_ok (PList xs) = list_all quotes_ok xs"
| "quotes_ok (PDict kvs) =
     (quote_ok (dict_get kvs ''quote'' (PStr [])) \<and> list_all (\<lambda>kv. quotes_ok (snd kv)) kvs)"
| "quotes_ok _ = True"

section \<open>Example plans\<close>

definition spec_plan :: pyval where
  \<comment> \<open>the end-to-end example of the specification\<close>
  "spec_plan = PDict
     [(''objective'', PDict
         [(''text'', PStr ''Determine why transformers fail at multi-digit multiplication'')]),
      (''hypothesis'', PDict [(''items'', PList [])]),
      (''methodology'', PDict
         [(''items'', PList [PDict [(''text'', PStr ''Reverse-engineer attention circuits'')]])]),
      (''experiments'', PDict
         [(''items'', PList
             [PDict [(''name'', PStr ''Digit-length sweep''),
                     (''metric'', PStr ''exact-match accuracy'')]])]),
      (''unknowns'', PList [])]"

definition cited_plan :: pyval where
  \<comment> \<open>a plan with evidence: three entries on the objective and on the first hypothesis,
      items and entries that are not mappings, a quote that holds \<open>": "\<close>\<close>
  "cited_plan = PDict
     [(''objective'', PDict
         [(''text'', PStr '' Explain the carry circuit ''),
          (''evidence'', PList
             [PDict [(''page'', PInt 1), (''quote'', PStr ''first   quote'')],
              PDict [(''quote'', PStr ''second: quote'')],
              PInt 7,
              PDict [(''page'', PInt 4), (''quote'', PStr ''third quote'')]])]),
      (''hypothesis'', PDict
         [(''items'', PList
             [PDict [(''text'', PStr ''n/a'')],
              PDict [(''text'', PStr ''Heads track carries''),
                     (''evidence'', PList
                        [PDict [(''page'', PInt 2), (''quote'', PStr ''result: carries'')],
                         PDict [(''page'', PStr ''x''), (''quote'', PStr ''see (p.12) there'')],
                         PDict [(''page'', PInt 9), (''quote'', PStr ''dropped'')]])],
              PStr ''junk''])]),
      (''methodology'', PInt 0),
      (''experiments'', PDict
         [(''items'', PList
             [PDict [(''name'', PStr ''Ablation''),
                     (''evidence'', PList
                        [PDict [(''page'', PInt 5), (''quote'', PStr ''e1'')],
                         PDict [(''page'', PInt 6), (''quote'', PNone)],
                         PDict [(''page'', PInt 7), (''quote'', PStr ''e2'')],
                         PDict [(''page'', PInt 8), (''quote'', PStr ''e3'')]])],
              PDict [(''name'', PStr '' ''), (''metric'', PStr ''lost'')]])]),
      (''unknowns'', PList [PStr ''seed'', PNone])]"

section \<open>Totality of the extractors\<close>

lemma quotes_ok_dict_get:
  assumes "quotes_ok (PDict d)" and "quotes_ok dflt"
  shows "quotes_ok (dict_get d k dflt)"
proof (cases "map_of d k")
  case None
  then show ?thesis using assms(2) by (simp add: dict_get_def)
next
  case (Some v)
  then have "(k, v) \<in> set d" by (rule map_of_SomeD)
  then have "quotes_ok v" using assms(1) by (auto simp: list_all_iff)
  then show ?thesis using Some by (simp add: dict_get_def)
qed

lemma normalize_quote_returns:
  assumes "quote_ok q"
  shows "\<exists>s. normalize_quote q = Inr s"
  using assms by (cases q) (auto simp: normalize_quote_def quote_ok_def Let_def)

lemma normalize_quote_raises:
  assumes "\<not> quote_ok q"
  shows "normalize_quote q = Inl AttributeError"
  using assms by (cases q) (auto simp: normalize_quote_def quote_ok_def Let_def)

lemma format_evidence_items_returns:
  assumes "list_all quotes_ok items"
  shows "\<exists>ls. format_evidence_items items = Inr ls"
  using assms
proof (induction items)
  case Nil
  show ?case by simp
next
  case (Cons item rest)
  then obtain ls where ls: "format_evidence_items rest = Inr ls" by auto
  show ?case
  proof (cases item)
    case (PDict d)
    with Cons.prems have "quote_ok (dict_get d ''quote'' (PStr []))" by simp
    then obtain s where "normalize_quote (dict_get d ''quote'' (PStr [])) = Inr s"
      using normalize_quote_returns by blast
    then show ?thesis using PDict ls by (simp add: Let_def)
  qed (simp_all add: ls)
qed

lemma format_evidence_list_returns:
  assumes "quotes_ok ev"
  shows "\<exists>ls. format_evidence_list ev = Inr ls"
  using assms by (cases ev) (simp_all add: format_evidence_list_def format_evidence_items_returns)

lemma quotes_ok_evidence:
  "quotes_ok (PDict d) \<Longrightarrow> quotes_ok (dict_get d ''evidence'' (PList []))"
  by (rule quotes_ok_dict_get) simp_all

lemma list_evidence_items_returns:
  assumes "list_all quotes_ok items"
  shows "\<exists>ls. list_evidence_items key idx items = Inr ls"
  using assms
proof (induction items arbitrary: idx)
  case Nil
  show ?case by simp
next
  case (Cons it rest)
  then obtain ls where ls: "list_evidence_items key (Suc idx) rest = Inr ls" by fastforce
  show ?case
  proof (cases it)
    case (PDict d)
    with Cons.prems have "quotes_ok (dict_get d ''evidence'' (PList []))"
      by (simp add: quotes_ok_evidence del: quotes_ok.simps)
    then obtain ev where "format_evidence_list (dict_get d ''evidence'' (PList [])) = Inr ev"
      using format_evidence_list_returns by blast
    then show ?thesis using PDict ls by simp
  qed (simp_all add: ls)
qed

lemma experiment_blocks_returns:
  assumes "list_all quotes_ok items"
  shows "\<exists>bs. experiment_blocks inc items = Inr bs"
  using assms
proof (induction items)
  case Nil
  show ?case by simp
next
  case (Cons it rest)
  then obtain bs where bs: "experiment_blocks inc rest = Inr bs" by auto
  show ?case
  proof (cases it)
    case (PDict d)
    with Cons.prems have "quotes_ok (dict_get d ''evidence'' (PList []))"
      by (simp add: quotes_ok_evidence del: quotes_ok.simps)
    then obtain ev where "format_evidence_list (dict_get d ''evidence'' (PList [])) = Inr ev"
      using format_evidence_list_returns by blast
    then show ?thesis using PDict bs by (simp add: Let_def)
  qed (simp_all add: bs)
qed

lemma quotes_ok_section_items:
  assumes "quotes_ok (PDict m)"
  shows "list_all quotes_ok (section_items m key)"
proof -
  have sec: "quotes_ok (dict_get m key (PDict []))"
    using assms by (rule quotes_ok_dict_get) (simp add: quote_ok_def dict_get_def)
  show ?thesis
  proof (cases "dict_get m key (PDict [])")
    case (PDict d)
    with sec have "quotes_ok (dict_get d ''items'' (PList []))"
      by (intro quotes_ok_dict_get) simp_all
    then show ?thesis
      using PDict by (cases "dict_get d ''items'' (PList [])") (simp_all add: section_items_def)
  qed (simp_all add: section_items_def)
qed

lemma extract_list_evidence_lines_items:
  "extract_list_evidence_lines (PDict m) key =
     (case list_evidence_items key 1 (section_items m key) of
        Inl e \<Rightarrow> Inl e
      | Inr lines \<Rightarrow> Inr (map strip_label lines))"
  by (auto simp: extract_list_evidence_lines_def py_get_def section_items_def
           split: pyval.splits sum.splits)

lemma extract_experiments_text_items:
  "extract_experiments_text (PDict m) inc =
     (if section_items m ''experiments'' = [] then Inr ''Unknown''
      else (case experiment_blocks inc (section_items m ''experiments'') of
              Inl e \<Rightarrow> Inl e
            | Inr exps \<Rightarrow>
                if exps = [] then Inr ''Unknown'' else Inr (strip (join ''\<newline>'' exps))))"
  by (auto simp: extract_experiments_text_def py_get_def section_items_def
           split: pyval.splits sum.splits)

lemma extract_list_evidence_lines_returns:
  assumes "quotes_ok (PDict m)"
  shows "\<exists>ls. extract_list_evidence_lines (PDict m) key = Inr ls"
proof -
  obtain ls where "list_evidence_items key 1 (section_items m key) = Inr ls"
    using list_evidence_items_returns [OF quotes_ok_section_items [OF assms]] by blast
  then show ?thesis by (simp add: extract_list_evidence_lines_items)
qed

lemma extract_experiments_text_returns:
  assumes "quotes_ok (PDict m)"
  shows "\<exists>t. extract_experiments_text (PDict m) inc = Inr t"
proof -
  obtain bs where "experiment_blocks inc (section_items m ''experiments'') = Inr bs"
    using experiment_blocks_returns [OF quotes_ok_section_items [OF assms]] by blast
  then show ?thesis by (simp add: extract_experiments_text_items)
qed

lemma extract_objective_text_returns:
  "\<exists>t. extract_objective_text (PDict m) = Inr t"
  by (simp add: extract_objective_text_def py_get_def split: pyval.splits)

lemma extract_objective_with_evidence_returns:
  assumes "quotes_ok (PDict m)"
  shows "\<exists>t ls. extract_objective_with_evidence (PDict m) = Inr (t, ls)"
proof (cases "dict_get m ''objective'' (PDict [])")
  case (PDict d)
  have "quotes_ok (dict_get m ''objective'' (PDict []))"
    using assms by (rule quotes_ok_dict_get) (simp add: quote_ok_def dict_get_def)
  then have "quotes_ok (dict_get d ''evidence'' (PList []))"
    using PDict by (simp add: quotes_ok_evidence del: quotes_ok.simps)
  then obtain ls where "format_evidence_list (dict_get d ''evidence'' (PList [])) = Inr ls"
    using format_evidence_list_returns by blast
  then show ?thesis
    using PDict by (simp add: extract_objective_with_evidence_def py_get_def Let_def)
qed (simp_all add: extract_objective_with_evidence_def py_get_def)

lemma extract_list_text_returns:
  "\<exists>t. extract_list_text (PDict m) key = Inr t"
  by (simp add: extract_list_text_eq_aux)

lemma extract_defaults:
  "section_items m key = [] \<Longrightarrow> extract_list_text (PDict m) key = Inr ''Unknown''"
  "section_items m key = [] \<Longrightarrow> extract_list_evidence_lines (PDict m) key = Inr []"
  "section_items m ''experiments'' = [] \<Longrightarrow> extract_experiments_text (PDict m) inc = Inr ''Unknown''"
  "\<forall>d. dict_get m ''objective'' (PDict []) \<noteq> PDict d \<Longrightarrow>
     extract_objective_text (PDict m) = Inr ''Unknown''"
  "\<forall>d. dict_get m ''objective'' (PDict []) \<noteq> PDict d \<Longrightarrow>
     extract_objective_with_evidence (PDict m) = Inr (''Unknown'', [])"
  "\<forall>xs. ev \<noteq> PList xs \<Longrightarrow> format_evidence_list ev = Inr []"
       apply (simp add: extract_list_text_eq_aux surviving_texts_def)
      apply (simp add: extract_list_evidence_lines_items)
     apply (simp add: extract_experiments_text_items)
    apply (simp add: extract_objective_text_def py_get_def split: pyval.splits)
   apply (simp add: extract_objective_with_evidence_def py_get_def split: pyval.splits)
  apply (simp add: format_evidence_list_def split: pyval.splits)
  done

text \<open>
  Claim C1, as amended. Let the Plan be a mapping in which no mapping has a truthy
  non-string value under \<open>quote\<close> (every quote is a string, \<open>None\<close>, absent, or another
  falsy value); items and entries may otherwise have any type. Then each of
  \<open>extract_objective_text\<close>, \<open>extract_objective_with_evidence\<close>, \<open>extract_list_text\<close>,
  \<open>extract_list_evidence_lines\<close> and \<open>extract_experiments_text\<close> returns a result, and so
  does \<open>format_evidence_list\<close> on every value with such quotes. On a structural mismatch
  the results are the defaults: \<open>"Unknown"\<close> (and no evidence) when the objective is not a
  mapping, \<open>"Unknown"\<close> and no lines when a section has no items, the empty sequence when
  the evidence is not a list. A Plan that is not a mapping has no method \<open>get\<close>: every
  extractor raises \<open>AttributeError\<close> on it, as the last theorem of this section shows,
  together with the formatter on a quote that is an integer.
\<close>

theorem extractors_total:
  assumes "plan = PDict m" and "quotes_ok plan" and "quotes_ok ev"
  shows "(\<exists>t. extract_objective_text plan = Inr t)
       \<and> (\<exists>t ls. extract_objective_with_evidence plan = Inr (t, ls))
       \<and> (\<exists>t. extract_list_text plan key = Inr t)
       \<and> (\<exists>ls. extract_list_evidence_lines plan key = Inr ls)
       \<and> (\<exists>t. extract_experiments_text plan inc = Inr t)
       \<and> (\<exists>ls. format_evidence_list ev = Inr ls)
       \<and> ((\<forall>d. dict_get m ''objective'' (PDict []) \<noteq> PDict d) \<longrightarrow>
            extract_objective_text plan = Inr ''Unknown''
            \<and> extract_objective_with_evidence plan = Inr (''Unknown'', []))
       \<and> (section_items m key = [] \<longrightarrow>
            extract_list_text plan key = Inr ''Unknown''
            \<and> extract_list_evidence_lines plan key = Inr [])
       \<and> (section_items m ''experiments'' = [] \<longrightarrow>
            extract_experiments_text plan inc = Inr ''Unknown'')
       \<and> ((\<forall>xs. ev \<noteq> PList xs) \<longrightarrow> format_evidence_list ev = Inr [])"
proof (intro conjI impI)
  have ok: "quotes_ok (PDict m)"
    using assms(1,2) by simp
  show "\<exists>t. extract_objective_text plan = Inr t"
    unfolding assms(1) by (rule extract_objective_text_returns)
  show "\<exists>t ls. extract_objective_with_evidence plan = Inr (t, ls)"
    unfolding assms(1) using ok by (rule extract_objective_with_evidence_returns)
  show "\<exists>t. extract_list_text plan key = Inr t"
    unfolding assms(1) by (rule extract_list_text_returns)
  show "\<exists>ls. extract_list_evidence_lines plan key = Inr ls"
    unfolding assms(1) using ok by (rule extract_list_evidence_lines_returns)
  show "\<exists>t. extract_experiments_text plan inc = Inr t"
    unfolding assms(1) using ok by (rule extract_experiments_text_returns)
  show "\<exists>ls. format_evidence_list ev = Inr ls"
    using assms(3) by (rule format_evidence_list_returns)
qed (simp_all add: assms(1) extract_defaults)

theorem extractors_total_witness:
  "quotes_ok cited_plan
   \<and> quotes_ok (PList [PDict [(''page'', PInt 3), (''quote'', PStr ''a  b'')], PNone])
   \<and> (\<exists>t. extract_objective_text cited_plan = Inr t)
   \<and> (\<exists>t ls. extract_objective_with_evidence cited_plan = Inr (t, ls))
   \<and> (\<exists>t. extract_list_text cited_plan ''hypothesis'' = Inr t)
   \<and> (\<exists>ls. extract_list_evidence_lines cited_plan ''hypothesis'' = Inr ls)
   \<and> (\<exists>t. extract_experiments_text cited_plan True = Inr t)
   \<and> (\<exists>ls. format_evidence_list
              (PList [PDict [(''page'', PInt 3), (''quote'', PStr ''a  b'')], PNone]) = Inr ls)
   \<and> extract_objective_text (PDict [(''objective'', PStr ''x'')]) = Inr ''Unknown''
   \<and> extract_objective_with_evidence (PDict [(''objective'', PStr ''x'')]) = Inr (''Unknown'', [])
   \<and> extract_list_text (PDict [(''objective'', PStr ''x'')]) ''hypothesis'' = Inr ''Unknown''
   \<and> extract_list_evidence_lines (PDict [(''objective'', PStr ''x'')]) ''hypothesis'' = Inr []
   \<and> extract_experiments_text (PDict [(''objective'', PStr ''x'')]) True = Inr ''Unknown''
   \<and> format_evidence_list (PStr ''x'') = Inr []"
proof -
  let ?ev = "PList [PDict [(''page'', PInt 3), (''quote'', PStr ''a  b'')], PNone]"
  let ?m = "[(''objective'', PStr ''x'')]"
  have plan: "quotes_ok cited_plan"
    by code_simp
  have ev: "quotes_ok ?ev"
    by code_simp
  have bare: "quotes_ok (PDict ?m)" "quotes_ok (PStr ''x'')"
    by code_simp+
  have no_obj: "\<forall>d. dict_get ?m ''objective'' (PDict []) \<noteq> PDict d"
    by (simp add: dict_get_def)
  have no_items: "section_items ?m ''hypothesis'' = []" "section_items ?m ''experiments'' = []"
    by (simp_all add: section_items_def dict_get_def)
  have no_list: "\<forall>xs. PStr ''x'' \<noteq> PList xs"
    by simp
  note full = extractors_total [OF cited_plan_def plan ev, of "''hypothesis''" True]
  note dflt = extractors_total [OF refl bare, of "''hypothesis''" True]
  show ?thesis
    using plan ev full dflt no_obj no_items no_list by blast
qed

theorem extractors_total_counterexample:
  "extract_objective_text (PList []) = Inl AttributeError
   \<and> extract_objective_with_evidence (PList []) = Inl AttributeError
   \<and> extract_list_text (PStr ''plan'') ''hypothesis'' = Inl AttributeError
   \<and> extract_list_evidence_lines (PInt 1) ''methodology'' = Inl AttributeError
   \<and> extract_experiments_text PNone True = Inl AttributeError
   \<and> format_evidence_list (PList [PDict [(''page'', PInt 1), (''quote'', PInt 5)]])
       = Inl AttributeError"
  by code_simp

section \<open>The extractors where the formatter returns\<close>

definition formatted_evidence :: "(string \<times> pyval) list \<Rightarrow> string list" where
  \<comment> \<open>the formatter's lines for the \<open>evidence\<close> of one item, none where it raises\<close>
  "formatted_evidence d =
     (case format_evidence_list (dict_get d ''evidence'' (PList [])) of
        Inr ev_lines \<Rightarrow> ev_lines
      | Inl _ \<Rightarrow> [])"

lemma after_first_colon:
  assumes "CHR '':'' \<notin> set p"
  shows "after_first '': '' (p @ '': '' @ e) = Some e"
  using assms by (induction p) simp_all

lemma match_page_digits:
  "match_page s = Some ds \<Longrightarrow> list_all is_digit ds"
  by (cases s rule: match_page.cases)
     (auto simp: Let_def list_all_iff split: if_splits dest: set_takeWhileD)

lemma re_search_page_digits:
  "re_search_page s = Some ds \<Longrightarrow> list_all is_digit ds"
  by (induction s) (auto split: option.splits dest: match_page_digits)

lemma digit_not_colon: "is_digit c \<Longrightarrow> c \<noteq> CHR '':''"
  by (auto simp: is_digit_def)

lemma extract_page_no_colon: "CHR '':'' \<notin> set (extract_page e)"
  by (auto simp: extract_page_def list_all_iff split: option.splits
           dest!: re_search_page_digits digit_not_colon)

lemma str_nat_no_colon: "CHR '':'' \<notin> set (str_nat n)"
  using str_nat_digits [of n] by (auto simp: list_all_iff dest: digit_not_colon)

lemma strip_label_prefixed:
  "strip_label (item_label key idx @ '' (p.'' @ extract_page e @ ''): '' @ e) = e"
proof -
  let ?p = "item_label key idx @ '' (p.'' @ extract_page e @ '')''"
  have "CHR '':'' \<notin> set ?p"
    using extract_page_no_colon [of e] str_nat_no_colon [of idx]
    by (auto simp: item_label_def)
  then have "after_first '': '' (?p @ '': '' @ e) = Some e"
    by (rule after_first_colon)
  then show ?thesis
    by (simp add: strip_label_def)
qed

lemma list_evidence_items_stripped:
  assumes "list_evidence_items key idx items = Inr lines"
  shows "map strip_label lines = concat (map (\<lambda>d. take 2 (formatted_evidence d)) (dicts_of items))"
  using assms
proof (induction items arbitrary: idx lines)
  case Nil
  then show ?case by simp
next
  case (Cons it rest)
  show ?case
  proof (cases it)
    case (PDict d)
    with Cons.prems obtain ev_lines ls where
      ev: "format_evidence_list (dict_get d ''evidence'' (PList [])) = Inr ev_lines"
      and ls: "list_evidence_items key (Suc idx) rest = Inr ls"
      and lines: "lines = map (\<lambda>e. item_label key idx @ '' (p.'' @ extract_page e @ ''): '' @ e)
                           (take 2 ev_lines) @ ls"
      by (auto split: sum.splits)
    have "map strip_label (map (\<lambda>e. item_label key idx @ '' (p.'' @ extract_page e @ ''): '' @ e)
                           (take 2 ev_lines)) = take 2 ev_lines"
      by (simp add: strip_label_prefixed [simplified] map_idI)
    then show ?thesis
      using PDict Cons.IH [OF ls] ev lines by (simp add: formatted_evidence_def)
  qed (use Cons in simp_all)
qed

lemma extract_list_evidence_lines_capped:
  assumes "extract_list_evidence_lines (PDict m) key = Inr lines"
  shows "lines = concat (map (\<lambda>d. take 2 (formatted_evidence d)) (dicts_of (section_items m key)))"
  using assms
  by (auto simp: extract_list_evidence_lines_items split: sum.splits
           dest: list_evidence_items_stripped)

section \<open>The evidence formatter, as the specification words it\<close>

definition is_word :: "string \<Rightarrow> bool" where
  "is_word w = (w \<noteq> [] \<and> list_all (\<lambda>c. \<not> is_space c) w)"

definition quote_words :: "pyval \<Rightarrow> string list" where
  \<comment> \<open>the words of a quote; a value that is not a string has none\<close>
  "quote_words q = (case q of PStr s \<Rightarrow> split_ws s | _ \<Rightarrow> [])"

definition shown_quote :: "string list \<Rightarrow> string" where
  \<comment> \<open>the words separated by single spaces; the first 40 and \<open>...\<close> when there are more\<close>
  "shown_quote ws =
     (if length ws > 40 then join '' '' (take 40 ws) @ ''...'' else join '' '' ws)"

definition entry_quote :: "(string \<times> pyval) list \<Rightarrow> pyval" where
  "entry_quote d = dict_get d ''quote'' (PStr [])"

definition formatted_entries :: "pyval list \<Rightarrow> string list" where
  \<comment> \<open>one line for every entry that is a mapping and whose quote has a word, in order\<close>
  "formatted_entries items =
     map (\<lambda>d. entry_line (dict_get d ''page'' PNone) (shown_quote (quote_words (entry_quote d))))
       (filter (\<lambda>d. quote_words (entry_quote d) \<noteq> []) (dicts_of items))"

definition rstrip :: "string \<Rightarrow> string" where
  \<comment> \<open>\<open>s.rstrip()\<close>\<close>
  "rstrip s = rev (dropWhile is_space (rev s))"

lemma strip_rstrip: "strip s = rstrip (dropWhile is_space s)"
  by (simp add: strip_def rstrip_def)

lemma rstrip_append_nonspace:
  assumes "c \<in> set b" and "\<not> is_space c"
  shows "rstrip (a @ b) = a @ rstrip b"
proof -
  have "dropWhile is_space (rev b @ rev a) = dropWhile is_space (rev b) @ rev a"
    using assms by (intro dropWhile_append1 [of c]) simp_all
  then show ?thesis by (simp add: rstrip_def)
qed

lemma rstrip_append_spaces:
  assumes "list_all is_space b"
  shows "rstrip (a @ b) = rstrip a"
proof -
  have "dropWhile is_space (rev b @ rev a) = dropWhile is_space (rev a)"
    using assms by (intro dropWhile_append2) (simp add: list_all_iff)
  then show ?thesis by (simp add: rstrip_def)
qed

lemma rstrip_no_space:
  assumes "list_all (\<lambda>c. \<not> is_space c) w"
  shows "rstrip w = w"
  using assms by (cases "rev w") (auto simp: rstrip_def list_all_iff)

lemma hd_rstrip:
  assumes "x \<noteq> []" and "\<not> is_space (hd x)"
  shows "rstrip x \<noteq> [] \<and> hd (rstrip x) = hd x"
proof -
  obtain c cs where x: "x = c # cs" using assms(1) by (cases x) auto
  then have "rstrip x = [c] @ rstrip cs \<or> rstrip x = [c]"
  proof (cases "\<exists>d\<in>set cs. \<not> is_space d")
    case True
    then obtain d where "d \<in> set cs" "\<not> is_space d" by blast
    then have "rstrip ([c] @ cs) = [c] @ rstrip cs" by (rule rstrip_append_nonspace)
    then show ?thesis using x by simp
  next
    case False
    then have "list_all is_space cs" by (simp add: list_all_iff)
    then have "rstrip ([c] @ cs) = rstrip [c]" by (rule rstrip_append_spaces)
    moreover have "rstrip [c] = [c]" using assms(2) x by (simp add: rstrip_def)
    ultimately show ?thesis using x by simp
  qed
  then show ?thesis using x by auto
qed

lemma re_sub_ws_word:
  assumes "list_all (\<lambda>c. \<not> is_space c) w"
  shows "re_sub_ws (w @ x) = w @ re_sub_ws x"
  using assms by (induction w) simp_all

lemma re_sub_ws_spaces:
  assumes "sp \<noteq> []" and "list_all is_space sp" and "x = [] \<or> \<not> is_space (hd x)"
  shows "re_sub_ws (sp @ x) = CHR '' '' # re_sub_ws x"
proof -
  obtain c sp' where sp: "sp = c # sp'" using assms(1) by (cases sp) auto
  have "dropWhile is_space (sp' @ x) = dropWhile is_space x"
    using assms(2) sp by (intro dropWhile_append2) (simp add: list_all_iff)
  also have "\<dots> = x"
    using assms(3) by (cases x) auto
  finally show ?thesis
    using sp assms(2) by simp
qed

lemma split_ws_Nil: "dropWhile is_space s = [] \<Longrightarrow> split_ws s = []"
  by (subst split_ws.simps) simp

lemma split_ws_Cons:
  "dropWhile is_space s \<noteq> [] \<Longrightarrow>
   split_ws s = takeWhile (\<lambda>c. \<not> is_space c) (dropWhile is_space s)
                # split_ws (dropWhile (\<lambda>c. \<not> is_space c) (dropWhile is_space s))"
  by (subst split_ws.simps) (simp add: Let_def)

lemma split_ws_dropWhile: "split_ws (dropWhile is_space s) = split_ws s"
proof (cases "dropWhile is_space s = []")
  case True
  then show ?thesis by (simp add: split_ws_Nil)
next
  case False
  have idem: "dropWhile is_space (dropWhile is_space s) = dropWhile is_space s"
    by (simp add: dropWhile_idem)
  show ?thesis
    using False by (simp add: split_ws_Cons idem)
qed

lemma collapse_eq_join_words:
  "re_sub_ws (rstrip (dropWhile is_space t)) = join '' '' (split_ws t)"
proof (induction t rule: split_ws.induct)
  case (1 s)
  define t where "t = dropWhile is_space s"
  show ?case
  proof (cases "t = []")
    case True
    then have e: "dropWhile is_space s = []" by (simp add: t_def)
    have "re_sub_ws (rstrip []) = []" by (simp add: rstrip_def)
    then show ?thesis
      unfolding e split_ws_Nil [OF e] by simp
  next
    case False
    define w where "w = takeWhile (\<lambda>c. \<not> is_space c) t"
    define r where "r = dropWhile (\<lambda>c. \<not> is_space c) t"
    define r' where "r' = dropWhile is_space r"
    define sp where "sp = takeWhile is_space r"
    have t: "t = w @ r" by (simp add: w_def r_def)
    have r: "r = sp @ r'" by (simp add: sp_def r'_def)
    have w: "list_all (\<lambda>c. \<not> is_space c) w"
      by (auto simp: w_def list_all_iff dest: set_takeWhileD)
    have sp: "list_all is_space sp"
      by (auto simp: sp_def list_all_iff dest: set_takeWhileD)
    have split: "split_ws s = w # split_ws r"
      using False by (simp add: split_ws_Cons t_def w_def r_def)
    have IH: "re_sub_ws (rstrip r') = join '' '' (split_ws r)"
      using 1 [OF t_def False] by (simp add: r_def r'_def)
    show ?thesis
    proof (cases "r' = []")
      case True
      then have "list_all is_space r" using r sp by simp
      then have "rstrip t = rstrip w" unfolding t by (rule rstrip_append_spaces)
      then have "rstrip t = w" using w by (simp add: rstrip_no_space)
      moreover have "re_sub_ws w = w" using re_sub_ws_word [OF w, of "[]"] by simp
      moreover have "split_ws r = []" using True by (simp add: split_ws_Nil r'_def)
      ultimately show ?thesis by (simp add: split t_def [symmetric])
    next
      case nonempty: False
      then have hd: "\<not> is_space (hd r')"
        unfolding r'_def by (rule hd_dropWhile)
      have "r \<noteq> []" using nonempty r by auto
      then have "\<not> \<not> is_space (hd r)"
        unfolding r_def by (rule hd_dropWhile)
      then have sp_ne: "sp \<noteq> []"
        using \<open>r \<noteq> []\<close> by (cases r) (auto simp: sp_def)
      have "hd r' \<in> set (sp @ r')" using nonempty by simp
      then have "rstrip (w @ (sp @ r')) = w @ rstrip (sp @ r')"
        using hd by (rule rstrip_append_nonspace)
      moreover have "rstrip (sp @ r') = sp @ rstrip r'"
        using nonempty hd by (intro rstrip_append_nonspace [of "hd r'"]) simp_all
      ultimately have "rstrip t = w @ sp @ rstrip r'" by (simp add: t r)
      moreover have "re_sub_ws (w @ sp @ rstrip r') = w @ CHR '' '' # re_sub_ws (rstrip r')"
        using hd_rstrip [OF nonempty hd] hd
        by (simp add: re_sub_ws_word [OF w] re_sub_ws_spaces [OF sp_ne sp])
      moreover have "split_ws r \<noteq> []"
        using nonempty by (simp add: split_ws_Cons r'_def)
      then have "join '' '' (w # split_ws r) = w @ '' '' @ join '' '' (split_ws r)"
        by (cases "split_ws r") simp_all
      ultimately show ?thesis
        by (simp add: split IH t_def [symmetric])
    qed
  qed
qed

lemma re_sub_ws_strip: "re_sub_ws (strip s) = join '' '' (split_ws s)"
  by (simp add: strip_rstrip collapse_eq_join_words)


lemma split_ws_words: "list_all is_word (split_ws s)"
proof (induction s rule: split_ws.induct)
  case (1 s)
  show ?case
  proof (cases "dropWhile is_space s = []")
    case True
    then show ?thesis by (simp add: split_ws_Nil)
  next
    case False
    then have "\<not> is_space (hd (dropWhile is_space s))"
      by (rule hd_dropWhile)
    then have "takeWhile (\<lambda>c. \<not> is_space c) (dropWhile is_space s) \<noteq> []"
      using False by (cases "dropWhile is_space s") auto
    then have "is_word (takeWhile (\<lambda>c. \<not> is_space c) (dropWhile is_space s))"
      by (auto simp: is_word_def list_all_iff dest: set_takeWhileD)
    then show ?thesis
      using False 1 [OF refl False] by (simp add: split_ws_Cons)
  qed
qed

lemma split_ws_word_append:
  assumes "is_word w" and "x = [] \<or> is_space (hd x)"
  shows "split_ws (w @ x) = w # split_ws x"
proof -
  obtain c cs where w: "w = c # cs" and c: "\<not> is_space c"
    using assms(1) by (cases w) (auto simp: is_word_def)
  have all: "\<And>c. c \<in> set w \<Longrightarrow> \<not> is_space c"
    using assms(1) by (simp add: is_word_def list_all_iff)
  have d: "dropWhile is_space (w @ x) = w @ x"
    using w c by simp
  have tk: "takeWhile (\<lambda>c. \<not> is_space c) (w @ x) = w"
    using assms(2) all by (cases x) (simp_all add: takeWhile_append2)
  have dr: "dropWhile (\<lambda>c. \<not> is_space c) (w @ x) = x"
    using assms(2) all by (cases x) (simp_all add: dropWhile_append2)
  have "dropWhile is_space (w @ x) \<noteq> []"
    using d w by simp
  from split_ws_Cons [OF this] show ?thesis
    by (simp only: d tk dr)
qed

lemma split_ws_join:
  assumes "list_all is_word ws"
  shows "split_ws (join '' '' ws) = ws"
  using assms
proof (induction "'' ''" ws rule: join.induct)
  case 1
  show ?case by (simp add: split_ws_Nil)
next
  case (2 x)
  then show ?case
    using split_ws_word_append [of x "[]"] by (simp add: split_ws_Nil)
next
  case (3 x y ys)
  have "split_ws (x @ ('' '' @ join '' '' (y # ys))) = x # split_ws ('' '' @ join '' '' (y # ys))"
    using 3(2) by (intro split_ws_word_append) (simp_all add: is_space_def)
  moreover have "split_ws ('' '' @ join '' '' (y # ys)) = split_ws (join '' '' (y # ys))"
    using split_ws_dropWhile [of "'' '' @ join '' '' (y # ys)"]
      split_ws_dropWhile [of "join '' '' (y # ys)"]
    by (simp add: is_space_def)
  ultimately show ?case
    using 3 by simp
qed

lemma join_words_empty:
  assumes "list_all is_word ws"
  shows "join sep ws = [] \<longleftrightarrow> ws = []"
  using assms by (induction sep ws rule: join.induct) (simp_all add: is_word_def)

lemma shown_quote_empty:
  assumes "list_all is_word ws"
  shows "shown_quote ws = [] \<longleftrightarrow> ws = []"
  using assms by (auto simp: shown_quote_def join_words_empty)

lemma normalize_quote_str:
  "normalize_quote (PStr s) = Inr (shown_quote (split_ws s))"
proof -
  have "split_ws (re_sub_ws (strip s)) = split_ws s"
    by (simp add: re_sub_ws_strip split_ws_join split_ws_words)
  then show ?thesis
    by (cases "s = []")
       (simp_all add: normalize_quote_def py_truthy_def Let_def shown_quote_def re_sub_ws_strip)
qed

lemma normalize_quote_words:
  assumes "quote_ok q"
  shows "normalize_quote q = Inr (shown_quote (quote_words q))"
proof (cases q)
  case (PStr s)
  then show ?thesis by (simp add: normalize_quote_str quote_words_def)
next
  case PNone
  then show ?thesis
    using normalize_quote_str [of "[]"]
    by (simp add: normalize_quote_def py_truthy_def quote_words_def split_ws_Nil)
qed (use assms normalize_quote_str [of "[]"] in
      \<open>simp_all add: normalize_quote_def quote_ok_def quote_words_def split_ws_Nil\<close>)

lemma format_evidence_items_spec:
  "format_evidence_items items =
     (if list_all (\<lambda>d. quote_ok (entry_quote d)) (dicts_of items)
      then Inr (formatted_entries items) else Inl AttributeError)"
proof (induction items)
  case Nil
  show ?case by (simp add: formatted_entries_def)
next
  case (Cons item rest)
  show ?case
  proof (cases item)
    case (PDict d)
    show ?thesis
    proof (cases "quote_ok (entry_quote d)")
      case True
      have words: "list_all is_word (quote_words (entry_quote d))"
        by (cases "entry_quote d") (simp_all add: quote_words_def split_ws_words)
      show ?thesis
        using PDict True Cons normalize_quote_words [OF True] shown_quote_empty [OF words]
        by (auto simp: entry_quote_def [symmetric] formatted_entries_def Let_def)
    next
      case False
      then show ?thesis
        using PDict normalize_quote_raises [OF False]
        by (simp add: entry_quote_def [symmetric] Let_def)
    qed
  qed (use Cons in \<open>simp_all add: formatted_entries_def\<close>)
qed

section \<open>The experiments and the evidence document, where the formatter returns\<close>

definition experiment_block :: "bool \<Rightarrow> (string \<times> pyval) list \<Rightarrow> string" where
  \<comment> \<open>the block of one experiment: heading, three fields, and with evidence requested (and
      present) at most two evidence lines\<close>
  "experiment_block include_evidence d =
     ''### '' @ normalize_unknown (dict_get d ''name'' PNone) @ ''\<newline>''
     @ ''- What varied: '' @ normalize_unknown (dict_get d ''what_varied'' PNone) @ ''\<newline>''
     @ ''- Metric: '' @ normalize_unknown (dict_get d ''metric'' PNone) @ ''\<newline>''
     @ ''- Main result: '' @ normalize_unknown (dict_get d ''main_result'' PNone) @ ''\<newline>''
     @ (if include_evidence \<and> formatted_evidence d \<noteq> []
        then ''- Evidence:\<newline>''
             @ concat (map (\<lambda>e. ''  - '' @ e @ ''\<newline>'') (take 2 (formatted_evidence d)))
        else [])"

definition named_experiments :: "(string \<times> pyval) list \<Rightarrow> (string \<times> pyval) list list" where
  \<comment> \<open>the experiments that are mappings and whose name does not normalize to \<open>"Unknown"\<close>\<close>
  "named_experiments m =
     filter (\<lambda>d. normalize_unknown (dict_get d ''name'' PNone) \<noteq> ''Unknown'')
       (dicts_of (section_items m ''experiments''))"

definition unknowns_of :: "(string \<times> pyval) list \<Rightarrow> pyval list" where
  \<comment> \<open>the \<open>unknowns\<close> of a Plan mapping: anything but a list counts as empty\<close>
  "unknowns_of m = (case dict_get m ''unknowns'' (PList []) of PList us \<Rightarrow> us | _ \<Rightarrow> [])"

definition objective_entries :: "(string \<times> pyval) list \<Rightarrow> pyval list" where
  \<comment> \<open>the entries of \<open>objective.evidence\<close>: none unless the objective is a mapping and its
      evidence a list\<close>
  "objective_entries m =
     (case dict_get m ''objective'' (PDict []) of
        PDict d \<Rightarrow> (case dict_get d ''evidence'' (PList []) of PList xs \<Rightarrow> xs | _ \<Rightarrow> [])
      | _ \<Rightarrow> [])"

lemma format_evidence_list_spec:
  "format_evidence_list ev =
     (case ev of
        PList items \<Rightarrow>
          if list_all (\<lambda>d. quote_ok (entry_quote d)) (dicts_of items)
          then Inr (formatted_entries items) else Inl AttributeError
      | _ \<Rightarrow> Inr [])"
  by (cases ev) (simp_all add: format_evidence_list_def format_evidence_items_spec)

lemma experiment_blocks_spec:
  assumes "experiment_blocks inc items = Inr bs"
  shows "bs = map (experiment_block inc)
                (filter (\<lambda>d. normalize_unknown (dict_get d ''name'' PNone) \<noteq> ''Unknown'')
                   (dicts_of items))"
  using assms
proof (induction items arbitrary: bs)
  case Nil
  then show ?case by simp
next
  case (Cons it rest)
  show ?case
  proof (cases it)
    case (PDict d)
    show ?thesis
    proof (cases "normalize_unknown (dict_get d ''name'' PNone) = ''Unknown''")
      case True
      then show ?thesis using PDict Cons by (simp add: Let_def)
    next
      case False
      with PDict Cons.prems obtain ev_lines exps where
        ev: "format_evidence_list (dict_get d ''evidence'' (PList [])) = Inr ev_lines"
        and exps: "experiment_blocks inc rest = Inr exps"
        by (auto simp: Let_def split: sum.splits)
      have "formatted_evidence d = ev_lines"
        using ev by (simp add: formatted_evidence_def)
      then show ?thesis
        using PDict False Cons.prems Cons.IH [OF exps] ev exps
        by (auto simp: Let_def experiment_block_def)
    qed
  qed (use Cons in simp_all)
qed

lemma extract_experiments_text_spec:
  assumes "extract_experiments_text (PDict m) inc = Inr t"
  shows "t = (if named_experiments m = [] then ''Unknown''
              else strip (join ''\<newline>'' (map (experiment_block inc) (named_experiments m))))"
  using assms
  by (auto simp: extract_experiments_text_items named_experiments_def
           split: if_splits sum.splits dest!: experiment_blocks_spec)

lemma extract_objective_with_evidence_spec:
  assumes "extract_objective_with_evidence (PDict m) = Inr (text, ev_lines)"
  shows "extract_objective_text (PDict m) = Inr text
       \<and> ev_lines = formatted_entries (objective_entries m)"
  using assms
  by (auto simp: extract_objective_with_evidence_def extract_objective_text_def py_get_def
                 objective_entries_def format_evidence_list_spec formatted_entries_def Let_def
           split: pyval.splits sum.splits if_splits)

lemma render_plan_md_with_evidence_spec:
  assumes "render_plan_md_with_evidence (PDict m) = Inr doc"
  shows "\<exists>obj_text hyp_text hyp_ev meth_text meth_ev exps_text.
           extract_objective_text (PDict m) = Inr obj_text
         \<and> extract_list_text (PDict m) ''hypothesis'' = Inr hyp_text
         \<and> extract_list_evidence_lines (PDict m) ''hypothesis'' = Inr hyp_ev
         \<and> extract_list_text (PDict m) ''methodology'' = Inr meth_text
         \<and> extract_list_evidence_lines (PDict m) ''methodology'' = Inr meth_ev
         \<and> extract_experiments_text (PDict m) True = Inr exps_text
         \<and> doc = ''# Plan (with evidence)\<newline>## Objective\<newline>'' @ obj_text @ ''\<newline>''
                 @ concat (evidence_block (formatted_entries (objective_entries m)))
                 @ ''\<newline>## Hypothesis\<newline>'' @ hyp_text @ ''\<newline>''
                 @ concat (evidence_block hyp_ev)
                 @ ''\<newline>## Methodology\<newline>'' @ meth_text @ ''\<newline>''
                 @ concat (evidence_block meth_ev)
                 @ ''\<newline>## Experiments\<newline>'' @ exps_text @ ''\<newline>''
                 @ ''\<newline>## Unknowns\<newline>'' @ concat (unknowns_block (unknowns_of m))"
proof -
  from assms obtain obj_text obj_ev hyp_text hyp_ev meth_text meth_ev exps_text where
    obj: "extract_objective_with_evidence (PDict m) = Inr (obj_text, obj_ev)"
    and hyp: "extract_list_text (PDict m) ''hypothesis'' = Inr hyp_text"
    and hyp_ev: "extract_list_evidence_lines (PDict m) ''hypothesis'' = Inr hyp_ev"
    and meth: "extract_list_text (PDict m) ''methodology'' = Inr meth_text"
    and meth_ev: "extract_list_evidence_lines (PDict m) ''methodology'' = Inr meth_ev"
    and exps: "extract_experiments_text (PDict m) True = Inr exps_text"
    by (auto simp: render_plan_md_with_evidence_def split: sum.splits prod.splits)
  note o = extract_objective_with_evidence_spec [OF obj]
  have "doc = ''# Plan (with evidence)\<newline>## Objective\<newline>'' @ obj_text @ ''\<newline>''
                 @ concat (evidence_block (formatted_entries (objective_entries m)))
                 @ ''\<newline>## Hypothesis\<newline>'' @ hyp_text @ ''\<newline>''
                 @ concat (evidence_block hyp_ev)
                 @ ''\<newline>## Methodology\<newline>'' @ meth_text @ ''\<newline>''
                 @ concat (evidence_block meth_ev)
                 @ ''\<newline>## Experiments\<newline>'' @ exps_text @ ''\<newline>''
                 @ ''\<newline>## Unknowns\<newline>'' @ concat (unknowns_block (unknowns_of m))"
    using assms obj hyp hyp_ev meth meth_ev exps o
    by (simp add: render_plan_md_with_evidence_def py_get_def unknowns_of_def)
  then show ?thesis
    using o hyp hyp_ev meth meth_ev exps by blast
qed

lemma unknowns_section_last:
  assumes "render_plan_md_with_evidence (PDict m) = Inr doc"
  shows "suffix (''\<newline>## Unknowns\<newline>''
                 @ (if unknowns_of m = [] then ''- (none)\<newline>''
                    else concat (map (\<lambda>u. ''- '' @ normalize_unknown u @ ''\<newline>'') (unknowns_of m))))
           doc"
proof -
  from render_plan_md_with_evidence_spec [OF assms] obtain body where
    "doc = body @ ''\<newline>## Unknowns\<newline>'' @ concat (unknowns_block (unknowns_of m))"
    by (metis append.assoc)
  moreover have "concat (unknowns_block (unknowns_of m)) =
      (if unknowns_of m = [] then ''- (none)\<newline>''
       else concat (map (\<lambda>u. ''- '' @ normalize_unknown u @ ''\<newline>'') (unknowns_of m)))"
    by (simp add: unknowns_block_def)
  ultimately show ?thesis
    by (simp add: suffix_def del: append_assoc)
qed

lemma objective_evidence_uncapped:
  assumes "render_plan_md_with_evidence (PDict m) = Inr doc"
  shows "\<exists>obj_text rest.
           extract_objective_text (PDict m) = Inr obj_text
         \<and> doc = ''# Plan (with evidence)\<newline>## Objective\<newline>'' @ obj_text @ ''\<newline>''
                 @ concat (evidence_block (formatted_entries (objective_entries m))) @ rest
         \<and> length (formatted_entries (objective_entries m))
             = length (filter (\<lambda>d. quote_words (entry_quote d) \<noteq> [])
                         (dicts_of (objective_entries m)))"
  using render_plan_md_with_evidence_spec [OF assms]
  by (auto simp: formatted_entries_def)

lemma spec_plan_documents:
  "render_plan_md_concise spec_plan = Inr
     (''# Plan\<newline>## Objective\<newline>''
      @ ''Determine why transformers fail at multi-digit multiplication\<newline>\<newline>''
      @ ''## Hypothesis\<newline>Unknown\<newline>\<newline>''
      @ ''## Methodology\<newline>1. Reverse-engineer attention circuits\<newline>\<newline>''
      @ ''## Experiments\<newline>### Digit-length sweep\<newline>- What varied: Unknown\<newline>''
      @ ''- Metric: exact-match accuracy\<newline>- Main result: Unknown\<newline>'')"
  "render_plan_md_with_evidence spec_plan = Inr
     (''# Plan (with evidence)\<newline>## Objective\<newline>''
      @ ''Determine why transformers fail at multi-digit multiplication\<newline>\<newline>''
      @ ''## Hypothesis\<newline>Unknown\<newline>\<newline>''
      @ ''## Methodology\<newline>1. Reverse-engineer attention circuits\<newline>\<newline>''
      @ ''## Experiments\<newline>### Digit-length sweep\<newline>- What varied: Unknown\<newline>''
      @ ''- Metric: exact-match accuracy\<newline>- Main result: Unknown\<newline>''
      @ ''\<newline>## Unknowns\<newline>- (none)\<newline>'')"
  by code_simp+

lemma cited_plan_evidence:
  "extract_list_evidence_lines cited_plan ''hypothesis'' = Inr
     [''(p.2) '' @ [CHR 0x22] @ ''result: carries'' @ [CHR 0x22],
      ''(p.?) '' @ [CHR 0x22] @ ''see (p.12) there'' @ [CHR 0x22]]"
  "extract_objective_with_evidence cited_plan = Inr
     (''Explain the carry circuit'',
      [''(p.1) '' @ [CHR 0x22] @ ''first quote'' @ [CHR 0x22],
       ''(p.?) '' @ [CHR 0x22] @ ''second: quote'' @ [CHR 0x22],
       ''(p.4) '' @ [CHR 0x22] @ ''third quote'' @ [CHR 0x22]])"
  by code_simp+

section \<open>The orchestrator\<close>

text \<open>
  \<open>main\<close> talks to its surroundings through five collaborators, which are parameters of the
  model:
  \<^item> \<open>run_claude k prompt\<close> is the \<open>k\<close>-th invocation of the generator (counted from 0): its
    standard output, or the exception it raises (\<open>RuntimeError\<close> on a non-zero exit,
    \<open>TimeoutExpired\<close> after the timeout);
  \<^item> \<open>loads\<close> is \<open>json.loads\<close>, with \<open>None\<close> for the exception it raises on text that is
    not JSON;
  \<^item> \<open>prompt\<close> is the text \<open>build_plan_prompt\<close> returns for the arguments of the run;
  \<^item> \<open>can_open path\<close> says whether \<open>open(path, "w", encoding="utf-8")\<close> succeeds (it raises
    \<open>OSError\<close> otherwise);
  \<^item> \<open>encodable text\<close> says whether the UTF-8 codec accepts the text. It refuses a lone
    surrogate, which \<open>json.loads\<close> accepts when it is written as an escape; such a code
    point is not among the characters of this model, so which texts hold one is a
    parameter.
  The state is the file system (the regular files with their contents, and the directories)
  together with the prompts sent to the generator so far. What \<open>main\<close> prints is left out.
\<close>

record world =
  files :: "string \<rightharpoonup> string"
  dirs :: "string set"
  prompts :: "string list"

definition is_alpha :: "char \<Rightarrow> bool" where
  \<comment> \<open>the class \<open>[a-zA-Z]\<close>\<close>
  "is_alpha c =
     (let n = (of_char c :: nat) in (65 \<le> n \<and> n \<le> 90) \<or> (97 \<le> n \<and> n \<le> 122))"

definition sub_open_fence :: "string \<Rightarrow> string" where
  \<comment> \<open>\<open>re.sub(r"^```[a-zA-Z]*\n", "", t)\<close>\<close>
  "sub_open_fence t =
     (if prefix ''```'' t \<and> take 1 (dropWhile is_alpha (drop 3 t)) = ''\<newline>''
      then drop 1 (dropWhile is_alpha (drop 3 t)) else t)"

definition sub_close_fence :: "string \<Rightarrow> string" where
  \<comment> \<open>\<open>re.sub(r"\n```$", "", t)\<close>: \<open>$\<close> is the end of the string, or the place before a
      newline that ends the string.\<close>
  "sub_close_fence t =
     (if suffix ''\<newline>```'' t then take (length t - 4) t
      else if suffix ''\<newline>```\<newline>'' t then take (length t - 5) t @ ''\<newline>''
      else t)"

definition parse_json_strict :: "(string \<Rightarrow> pyval option) \<Rightarrow> string \<Rightarrow> error + pyval" where
  "parse_json_strict loads text =
     (let t = strip text;
          t' = (if prefix ''```'' t then strip (sub_close_fence (sub_open_fence t)) else t)
      in case loads t' of None \<Rightarrow> Inl JSONDecodeError | Some plan \<Rightarrow> Inr plan)"

definition path_join :: "string \<Rightarrow> string \<Rightarrow> string" where
  \<comment> \<open>\<open>os.path.join(a, b)\<close> for a relative \<open>b\<close>\<close>
  "path_join a b = (if a = [] \<or> suffix ''/'' a then a @ b else a @ ''/'' @ b)"

definition repair_suffix :: string where
  "repair_suffix = ''\<newline>\<newline>Your last output was not valid JSON. Return valid JSON ONLY.''"

definition write_text ::
  "(string \<Rightarrow> bool) \<Rightarrow> (string \<Rightarrow> bool) \<Rightarrow> string \<Rightarrow> string \<Rightarrow> world \<Rightarrow> error option \<times> world" where
  \<comment> \<open>\<open>with open(path, "w", encoding="utf-8") as f: f.write(text)\<close>. Opening creates the
      file or empties it; \<open>write\<close> encodes the whole text before it writes any of it.\<close>
  "write_text can_open encodable path text w =
     (if \<not> can_open path then (Some OSError, w)
      else if \<not> encodable text then (Some UnicodeEncodeError, w\<lparr>files := (files w)(path \<mapsto> [])\<rparr>)
      else (None, w\<lparr>files := (files w)(path \<mapsto> text)\<rparr>))"

definition write_outputs ::
  "(string \<Rightarrow> bool) \<Rightarrow> (string \<Rightarrow> bool) \<Rightarrow> string \<Rightarrow> pyval \<Rightarrow> world \<Rightarrow> error option \<times> world" where
  \<comment> \<open>the end of \<open>main\<close>: both documents are rendered, then \<open>plan.md\<close> is written, then
      \<open>plan_with_evidence.md\<close>\<close>
  "write_outputs can_open encodable out_dir plan w =
     (case render_plan_md_concise plan of
        Inl e \<Rightarrow> (Some e, w)
      | Inr plan_md \<Rightarrow>
          (case render_plan_md_with_evidence plan of
             Inl e \<Rightarrow> (Some e, w)
           | Inr plan_with_evidence_md \<Rightarrow>
               (let out_plan = path_join out_dir ''plan.md'';
                    out_plan_e = path_join out_dir ''plan_with_evidence.md''
                in case write_text can_open encodable out_plan plan_md w of
                     (Some e, w1) \<Rightarrow> (Some e, w1)
                   | (None, w1) \<Rightarrow>
                       write_text can_open encodable out_plan_e plan_with_evidence_md w1)))"

definition call_claude ::
  "(nat \<Rightarrow> string \<Rightarrow> error + string) \<Rightarrow> string \<Rightarrow> world \<Rightarrow> (error + string) \<times> world" where
  \<comment> \<open>one invocation of the generator: the prompt is recorded, whatever comes back\<close>
  "call_claude run_claude p w =
     (run_claude (length (prompts w)) p, w\<lparr>prompts := prompts w @ [p]\<rparr>)"

definition main ::
  "bool \<Rightarrow> string \<Rightarrow> string \<Rightarrow> (nat \<Rightarrow> string \<Rightarrow> error + string) \<Rightarrow> (string \<Rightarrow> pyval option)
     \<Rightarrow> (string \<Rightarrow> bool) \<Rightarrow> (string \<Rightarrow> bool) \<Rightarrow> world \<Rightarrow> error option \<times> world" where
  \<comment> \<open>\<open>pdf_exists\<close> is \<open>os.path.exists(pdf_path)\<close>; the result is the exception that ended the
      run, if any, and the state it left.\<close>
  "main pdf_exists out_dir prompt run_claude loads can_open encodable w =
     (if \<not> pdf_exists then (Some SystemExit, w)
      else
        (let w0 = w\<lparr>dirs := insert out_dir (dirs w)\<rparr>
         in case call_claude run_claude prompt w0 of
              (Inl e, w1) \<Rightarrow> (Some e, w1)
            | (Inr output, w1) \<Rightarrow>
                (case parse_json_strict loads output of
                   Inr plan \<Rightarrow> write_outputs can_open encodable out_dir plan w1
                 | Inl _ \<Rightarrow>
                     (let repair_prompt = prompt @ repair_suffix
                      in case call_claude run_claude repair_prompt w1 of
                           (Inl e, w2) \<Rightarrow> (Some e, w2)
                         | (Inr output2, w2) \<Rightarrow>
                             (case parse_json_strict loads output2 of
                                Inl e \<Rightarrow> (Some e, w2)
                              | Inr plan \<Rightarrow>
                                  write_outputs can_open encodable out_dir plan w2)))))"

definition written_files ::
  "(string \<Rightarrow> bool) \<Rightarrow> (string \<Rightarrow> bool) \<Rightarrow> string \<Rightarrow> string \<Rightarrow> string \<Rightarrow> (string \<rightharpoonup> string)
     \<Rightarrow> error option \<times> (string \<rightharpoonup> string)" where
  \<comment> \<open>what writing the two documents, one after the other and without rollback, makes of
      the files: the five ways it can end\<close>
  "written_files can_open encodable out_dir plan_md plan_e fs =
     (let p = path_join out_dir ''plan.md'';
          q = path_join out_dir ''plan_with_evidence.md''
      in if \<not> can_open p then (Some OSError, fs)
         else if \<not> encodable plan_md then (Some UnicodeEncodeError, fs(p \<mapsto> []))
         else if \<not> can_open q then (Some OSError, fs(p \<mapsto> plan_md))
         else if \<not> encodable plan_e then (Some UnicodeEncodeError, fs(p \<mapsto> plan_md, q \<mapsto> []))
         else (None, fs(p \<mapsto> plan_md, q \<mapsto> plan_e)))"

definition rendered_outputs ::
  "(string \<Rightarrow> bool) \<Rightarrow> (string \<Rightarrow> bool) \<Rightarrow> string \<Rightarrow> pyval \<Rightarrow> (string \<rightharpoonup> string)
     \<Rightarrow> error option \<times> (string \<rightharpoonup> string)" where
  \<comment> \<open>the run from a parsed plan on: an error of a renderer leaves the files as they are,
      otherwise the two documents are written\<close>
  "rendered_outputs can_open encodable out_dir plan fs =
     (case (render_plan_md_concise plan, render_plan_md_with_evidence plan) of
        (Inl e, _) \<Rightarrow> (Some e, fs)
      | (Inr plan_md, Inl e) \<Rightarrow> (Some e, fs)
      | (Inr plan_md, Inr plan_e) \<Rightarrow> written_files can_open encodable out_dir plan_md plan_e fs)"

text \<open>Collaborators and a state to run \<open>main\<close> on.\<close>

definition flaky_claude :: "nat \<Rightarrow> string \<Rightarrow> error + string" where
  \<comment> \<open>prose at the first invocation, a fenced JSON object afterwards\<close>
  "flaky_claude k p =
     (if k = 0 then Inr ''Here is the plan.'' else Inr ''```json\<newline>{}\<newline>```'')"

definition prose_claude :: "nat \<Rightarrow> string \<Rightarrow> error + string" where
  "prose_claude k p = Inr ''Here is the plan.''"

definition json_claude :: "nat \<Rightarrow> string \<Rightarrow> error + string" where
  "json_claude k p = Inr ''{}''"

definition failing_claude :: "nat \<Rightarrow> string \<Rightarrow> error + string" where
  "failing_claude k p = Inl TimeoutExpired"

definition surrogate_mark :: char where
  \<comment> \<open>stands for a lone surrogate, a code point outside the characters of this model\<close>
  "surrogate_mark = CHR 0x1A"

definition loads_example :: "string \<Rightarrow> pyval option" where
  \<comment> \<open>\<open>json.loads\<close> on the texts the example generators produce; \<open>PLAN\<close> stands for the
      JSON text of a plan whose only unknown is a lone surrogate\<close>
  "loads_example t =
     (if t = ''{}'' then Some (PDict [])
      else if t = ''PLAN'' then Some (PDict [(''unknowns'', PList [PStr [surrogate_mark]])])
      else None)"

definition surrogate_claude :: "nat \<Rightarrow> string \<Rightarrow> error + string" where
  "surrogate_claude k p = Inr ''PLAN''"

definition utf8_encodable :: "string \<Rightarrow> bool" where
  "utf8_encodable t = (surrogate_mark \<notin> set t)"

definition empty_world :: world where
  "empty_world = \<lparr>files = Map.empty, dirs = {}, prompts = []\<rparr>"

section \<open>Properties of the orchestrator\<close>

lemma parse_json_strict_error:
  "parse_json_strict loads text = Inl e \<Longrightarrow> e = JSONDecodeError"
  by (auto simp: parse_json_strict_def Let_def split: option.splits)

lemma output_paths_differ:
  "path_join out_dir ''plan.md'' \<noteq> path_join out_dir ''plan_with_evidence.md''"
  by (simp add: path_join_def)

lemma write_outputs_files:
  assumes "write_outputs can_open encodable out_dir plan w = (res, w')"
  shows "prompts w' = prompts w \<and> dirs w' = dirs w
       \<and> (res, files w') = rendered_outputs can_open encodable out_dir plan (files w)"
  using assms
  by (auto simp: write_outputs_def rendered_outputs_def written_files_def write_text_def Let_def
           split: sum.splits if_splits)

lemma rendered_outputs_done:
  assumes "rendered_outputs can_open encodable out_dir plan fs = (None, fs')"
  shows "\<exists>plan_md plan_e.
           render_plan_md_concise plan = Inr plan_md
         \<and> render_plan_md_with_evidence plan = Inr plan_e
         \<and> fs' = fs(path_join out_dir ''plan.md'' \<mapsto> plan_md,
                     path_join out_dir ''plan_with_evidence.md'' \<mapsto> plan_e)"
  using assms
  by (auto simp: rendered_outputs_def written_files_def Let_def split: sum.splits if_splits)

lemma rendered_outputs_order:
  assumes "rendered_outputs can_open encodable out_dir plan fs = (res, fs')"
    and "fs' (path_join out_dir ''plan_with_evidence.md'') \<noteq> fs (path_join out_dir ''plan_with_evidence.md'')"
  shows "\<exists>plan_md. render_plan_md_concise plan = Inr plan_md
           \<and> fs' (path_join out_dir ''plan.md'') = Some plan_md"
  using assms output_paths_differ [of out_dir]
  by (auto simp: rendered_outputs_def written_files_def Let_def split: sum.splits if_splits)

lemma rendered_outputs_frame:
  assumes "rendered_outputs can_open encodable out_dir plan fs = (res, fs')"
    and "x \<noteq> path_join out_dir ''plan.md''" and "x \<noteq> path_join out_dir ''plan_with_evidence.md''"
  shows "fs' x = fs x"
  using assms
  by (auto simp: rendered_outputs_def written_files_def Let_def split: sum.splits if_splits)

lemma main_prompts:
  assumes "main pdf_exists out_dir prompt run_claude loads can_open encodable w = (res, w')"
  shows "prompts w' = prompts w \<or> prompts w' = prompts w @ [prompt]
       \<or> prompts w' = prompts w @ [prompt, prompt @ repair_suffix]"
  using assms
  by (auto simp: main_def call_claude_def Let_def
           split: if_splits sum.splits prod.splits dest!: write_outputs_files)

lemma main_first_parse_failure:
  assumes "main pdf_exists out_dir prompt run_claude loads can_open encodable w = (res, w')"
    and "pdf_exists"
    and "run_claude (length (prompts w)) prompt = Inr out1"
    and "parse_json_strict loads out1 = Inl e"
  shows "prompts w' = prompts w @ [prompt, prompt @ repair_suffix]"
    and "run_claude (Suc (length (prompts w))) (prompt @ repair_suffix) = Inl e2 \<Longrightarrow>
           res = Some e2 \<and> files w' = files w"
    and "run_claude (Suc (length (prompts w))) (prompt @ repair_suffix) = Inr out2 \<Longrightarrow>
           parse_json_strict loads out2 = Inl e2 \<Longrightarrow> res = Some e2 \<and> files w' = files w"
    and "run_claude (Suc (length (prompts w))) (prompt @ repair_suffix) = Inr out2 \<Longrightarrow>
           parse_json_strict loads out2 = Inr plan \<Longrightarrow>
           (res, files w') = rendered_outputs can_open encodable out_dir plan (files w)"
  using assms
  by (auto simp: main_def call_claude_def Let_def
           split: if_splits sum.splits prod.splits dest!: write_outputs_files)

lemma main_no_repair:
  assumes "main pdf_exists out_dir prompt run_claude loads can_open encodable w = (res, w')"
  shows "\<not> pdf_exists \<Longrightarrow> res = Some SystemExit \<and> w' = w"
    and "pdf_exists \<Longrightarrow> run_claude (length (prompts w)) prompt = Inl e \<Longrightarrow>
           res = Some e \<and> files w' = files w \<and> prompts w' = prompts w @ [prompt]"
    and "pdf_exists \<Longrightarrow> run_claude (length (prompts w)) prompt = Inr out1 \<Longrightarrow>
           parse_json_strict loads out1 = Inr plan \<Longrightarrow>
           prompts w' = prompts w @ [prompt]
           \<and> (res, files w') = rendered_outputs can_open encodable out_dir plan (files w)"
  using assms
  by (auto simp: main_def call_claude_def Let_def
           split: if_splits sum.splits prod.splits dest!: write_outputs_files)

lemma main_files:
  assumes "main pdf_exists out_dir prompt run_claude loads can_open encodable w = (res, w')"
  shows "(\<exists>e. res = Some e \<and> files w' = files w)
       \<or> (\<exists>plan. (res, files w') = rendered_outputs can_open encodable out_dir plan (files w))"
  using assms
  by (auto simp: main_def call_claude_def Let_def
           split: if_splits sum.splits prod.splits dest!: write_outputs_files)

text \<open>
  Claim C8, as amended. A run of \<open>main\<close> invokes the generator at most twice: once with the
  prompt and, only when that response fails strict JSON parsing, once more with the prompt
  followed by the repair instruction, whose response is parsed in turn. A second parse
  failure ends the run with its error, as do a missing input file (before any invocation)
  and a failure of the generator at either invocation; all of these, and an error of a
  renderer, come before either output file is opened and leave the files as they were.
  The two files are then written one after the other, \<open>plan.md\<close> first, and nothing is
  undone: a run without error leaves both fully written, \<open>plan_with_evidence.md\<close> is
  touched only after \<open>plan.md\<close> holds its whole document, and no other file changes. An
  error raised while writing therefore can leave \<open>plan.md\<close> written, or emptied, without
  its companion: the last theorem of this section is such a run, where the files are
  neither both absent nor both fully written.
\<close>

theorem main_repair_once_errors_before_writes:
  assumes "main pdf_exists out_dir prompt run_claude loads can_open encodable w = (res, w')"
  shows "(prompts w' = prompts w \<or> prompts w' = prompts w @ [prompt]
          \<or> prompts w' = prompts w @ [prompt, prompt @ repair_suffix])
       \<and> (\<not> pdf_exists \<longrightarrow> res = Some SystemExit \<and> w' = w)
       \<and> (\<forall>e. pdf_exists \<and> run_claude (length (prompts w)) prompt = Inl e \<longrightarrow>
             res = Some e \<and> prompts w' = prompts w @ [prompt] \<and> files w' = files w)
       \<and> (\<forall>out1 plan. pdf_exists \<and> run_claude (length (prompts w)) prompt = Inr out1
             \<and> parse_json_strict loads out1 = Inr plan \<longrightarrow>
             prompts w' = prompts w @ [prompt]
             \<and> (res, files w') = rendered_outputs can_open encodable out_dir plan (files w))
       \<and> (\<forall>out1 e. pdf_exists \<and> run_claude (length (prompts w)) prompt = Inr out1
             \<and> parse_json_strict loads out1 = Inl e \<longrightarrow>
             prompts w' = prompts w @ [prompt, prompt @ repair_suffix]
             \<and> (\<forall>e2. run_claude (Suc (length (prompts w))) (prompt @ repair_suffix) = Inl e2 \<longrightarrow>
                   res = Some e2 \<and> files w' = files w)
             \<and> (\<forall>out2. run_claude (Suc (length (prompts w))) (prompt @ repair_suffix)
                     = Inr out2 \<longrightarrow>
                   (\<forall>e2. parse_json_strict loads out2 = Inl e2 \<longrightarrow>
                      res = Some e2 \<and> files w' = files w)
                 \<and> (\<forall>plan. parse_json_strict loads out2 = Inr plan \<longrightarrow>
                      (res, files w')
                        = rendered_outputs can_open encodable out_dir plan (files w))))
       \<and> (res = None \<longrightarrow>
             (\<exists>plan plan_md plan_e.
                render_plan_md_concise plan = Inr plan_md
              \<and> render_plan_md_with_evidence plan = Inr plan_e
              \<and> files w' = (files w)(path_join out_dir ''plan.md'' \<mapsto> plan_md,
                                     path_join out_dir ''plan_with_evidence.md'' \<mapsto> plan_e)))
       \<and> (files w' (path_join out_dir ''plan_with_evidence.md'')
             \<noteq> files w (path_join out_dir ''plan_with_evidence.md'') \<longrightarrow>
             (\<exists>plan plan_md. render_plan_md_concise plan = Inr plan_md
                \<and> files w' (path_join out_dir ''plan.md'') = Some plan_md))
       \<and> (\<forall>x. x \<noteq> path_join out_dir ''plan.md''
             \<and> x \<noteq> path_join out_dir ''plan_with_evidence.md'' \<longrightarrow> files w' x = files w x)
       \<and> path_join out_dir ''plan.md'' \<noteq> path_join out_dir ''plan_with_evidence.md''"
proof (intro conjI allI impI)
  show "prompts w' = prompts w \<or> prompts w' = prompts w @ [prompt]
          \<or> prompts w' = prompts w @ [prompt, prompt @ repair_suffix]"
    using assms by (rule main_prompts)
next
  assume "\<not> pdf_exists"
  then show "res = Some SystemExit" "w' = w"
    using main_no_repair(1) [OF assms] by simp_all
next
  fix e
  assume "pdf_exists \<and> run_claude (length (prompts w)) prompt = Inl e"
  then show "res = Some e" "prompts w' = prompts w @ [prompt]" "files w' = files w"
    using main_no_repair(2) [OF assms, of e] by simp_all
next
  fix out1 plan
  assume "pdf_exists \<and> run_claude (length (prompts w)) prompt = Inr out1
             \<and> parse_json_strict loads out1 = Inr plan"
  then show "prompts w' = prompts w @ [prompt]"
    "(res, files w') = rendered_outputs can_open encodable out_dir plan (files w)"
    using main_no_repair(3) [OF assms, of out1 plan] by simp_all
next
  fix out1 e
  assume first: "pdf_exists \<and> run_claude (length (prompts w)) prompt = Inr out1
             \<and> parse_json_strict loads out1 = Inl e"
  note failure = main_first_parse_failure [OF assms, of out1 e]
  show "prompts w' = prompts w @ [prompt, prompt @ repair_suffix]"
    using first by (intro failure(1)) simp_all
  {
    fix e2
    assume "run_claude (Suc (length (prompts w))) (prompt @ repair_suffix) = Inl e2"
    then show "res = Some e2" "files w' = files w"
      using first failure(2) [of e2] by simp_all
  }
  {
    fix out2 e2
    assume "run_claude (Suc (length (prompts w))) (prompt @ repair_suffix) = Inr out2"
      and "parse_json_strict loads out2 = Inl e2"
    then show "res = Some e2" "files w' = files w"
      using first failure(3) [of out2 e2] by simp_all
  }
  {
    fix out2 plan
    assume "run_claude (Suc (length (prompts w))) (prompt @ repair_suffix) = Inr out2"
      and "parse_json_strict loads out2 = Inr plan"
    then show "(res, files w') = rendered_outputs can_open encodable out_dir plan (files w)"
      using first failure(4) [of out2 plan] by simp
  }
next
  assume "res = None"
  then obtain plan where
    "rendered_outputs can_open encodable out_dir plan (files w) = (None, files w')"
    using main_files [OF assms] by auto
  from rendered_outputs_done [OF this]
  show "\<exists>plan plan_md plan_e.
                render_plan_md_concise plan = Inr plan_md
              \<and> render_plan_md_with_evidence plan = Inr plan_e
              \<and> files w' = (files w)(path_join out_dir ''plan.md'' \<mapsto> plan_md,
                                     path_join out_dir ''plan_with_evidence.md'' \<mapsto> plan_e)"
    by blast
next
  assume changed: "files w' (path_join out_dir ''plan_with_evidence.md'')
             \<noteq> files w (path_join out_dir ''plan_with_evidence.md'')"
  then obtain plan where
    "rendered_outputs can_open encodable out_dir plan (files w) = (res, files w')"
    using main_files [OF assms] by auto
  from rendered_outputs_order [OF this changed]
  show "\<exists>plan plan_md. render_plan_md_concise plan = Inr plan_md
                \<and> files w' (path_join out_dir ''plan.md'') = Some plan_md"
    by blast
next
  fix x
  assume x: "x \<noteq> path_join out_dir ''plan.md''
             \<and> x \<noteq> path_join out_dir ''plan_with_evidence.md''"
  from main_files [OF assms] show "files w' x = files w x"
  proof
    assume "\<exists>e. res = Some e \<and> files w' = files w"
    then show ?thesis by auto
  next
    assume "\<exists>plan. (res, files w') = rendered_outputs can_open encodable out_dir plan (files w)"
    then obtain plan where
      "rendered_outputs can_open encodable out_dir plan (files w) = (res, files w')"
      by auto
    from rendered_outputs_frame [OF this] x show ?thesis by simp
  qed
next
  show "path_join out_dir ''plan.md'' \<noteq> path_join out_dir ''plan_with_evidence.md''"
    by (rule output_paths_differ)
qed


theorem main_repair_once_errors_before_writes_witness:
  "flaky_claude 0 ''P'' = Inr ''Here is the plan.''
   \<and> parse_json_strict loads_example ''Here is the plan.'' = Inl JSONDecodeError
   \<and> flaky_claude 1 (''P'' @ repair_suffix) = Inr ''```json\<newline>{}\<newline>```''
   \<and> parse_json_strict loads_example ''```json\<newline>{}\<newline>```'' = Inr (PDict [])
   \<and> fst (main True ''out'' ''P'' flaky_claude loads_example (\<lambda>p. True) (\<lambda>t. True) empty_world)
       = None
   \<and> prompts (snd (main True ''out'' ''P'' flaky_claude loads_example (\<lambda>p. True) (\<lambda>t. True)
                     empty_world))
       = [''P'', ''P'' @ repair_suffix]
   \<and> files (snd (main True ''out'' ''P'' flaky_claude loads_example (\<lambda>p. True) (\<lambda>t. True)
                   empty_world))
       = [''out/plan.md'' \<mapsto>
            ''# Plan\<newline>## Objective\<newline>Unknown\<newline>\<newline>## Hypothesis\<newline>Unknown\<newline>\<newline>## Methodology\<newline>Unknown\<newline>\<newline>## Experiments\<newline>Unknown\<newline>'',
          ''out/plan_with_evidence.md'' \<mapsto>
            ''# Plan (with evidence)\<newline>## Objective\<newline>Unknown\<newline>\<newline>## Hypothesis\<newline>Unknown\<newline>\<newline>## Methodology\<newline>Unknown\<newline>\<newline>## Experiments\<newline>Unknown\<newline>\<newline>## Unknowns\<newline>- (none)\<newline>'']
   \<and> fst (main True ''out'' ''P'' json_claude loads_example (\<lambda>p. True) (\<lambda>t. True) empty_world)
       = None
   \<and> prompts (snd (main True ''out'' ''P'' json_claude loads_example (\<lambda>p. True) (\<lambda>t. True)
                     empty_world))
       = [''P'']
   \<and> fst (main True ''out'' ''P'' prose_claude loads_example (\<lambda>p. True) (\<lambda>t. True) empty_world)
       = Some JSONDecodeError
   \<and> prompts (snd (main True ''out'' ''P'' prose_claude loads_example (\<lambda>p. True) (\<lambda>t. True)
                     empty_world))
       = [''P'', ''P'' @ repair_suffix]
   \<and> files (snd (main True ''out'' ''P'' prose_claude loads_example (\<lambda>p. True) (\<lambda>t. True)
                   empty_world))
       = Map.empty
   \<and> fst (main True ''out'' ''P'' failing_claude loads_example (\<lambda>p. True) (\<lambda>t. True) empty_world)
       = Some TimeoutExpired
   \<and> prompts (snd (main True ''out'' ''P'' failing_claude loads_example (\<lambda>p. True) (\<lambda>t. True)
                     empty_world))
       = [''P'']
   \<and> files (snd (main True ''out'' ''P'' failing_claude loads_example (\<lambda>p. True) (\<lambda>t. True)
                   empty_world))
       = Map.empty
   \<and> main False ''out'' ''P'' flaky_claude loads_example (\<lambda>p. True) (\<lambda>t. True) empty_world
       = (Some SystemExit, empty_world)"
proof -
  let ?concise = "''# Plan\<newline>## Objective\<newline>Unknown\<newline>\<newline>## Hypothesis\<newline>Unknown\<newline>\<newline>## Methodology\<newline>Unknown\<newline>\<newline>## Experiments\<newline>Unknown\<newline>''"
  let ?cited = "''# Plan (with evidence)\<newline>## Objective\<newline>Unknown\<newline>\<newline>## Hypothesis\<newline>Unknown\<newline>\<newline>## Methodology\<newline>Unknown\<newline>\<newline>## Experiments\<newline>Unknown\<newline>\<newline>## Unknowns\<newline>- (none)\<newline>''"
  have w: "prompts empty_world = []" "files empty_world = Map.empty"
    by (simp_all add: empty_world_def)
  have paths: "path_join ''out'' ''plan.md'' = ''out/plan.md''"
    "path_join ''out'' ''plan_with_evidence.md'' = ''out/plan_with_evidence.md''"
    by code_simp+
  have prose: "parse_json_strict loads_example ''Here is the plan.'' = Inl JSONDecodeError"
    by code_simp
  have fenced: "parse_json_strict loads_example ''```json\<newline>{}\<newline>```'' = Inr (PDict [])"
    by code_simp
  have bare: "parse_json_strict loads_example ''{}'' = Inr (PDict [])"
    by code_simp
  have concise: "render_plan_md_concise (PDict []) = Inr ?concise"
    by code_simp
  have cited: "render_plan_md_with_evidence (PDict []) = Inr ?cited"
    by code_simp
  have outputs: "rendered_outputs (\<lambda>p. True) (\<lambda>t. True) ''out'' (PDict []) Map.empty
      = (None, [''out/plan.md'' \<mapsto> ?concise, ''out/plan_with_evidence.md'' \<mapsto> ?cited])"
    by (simp add: rendered_outputs_def written_files_def concise cited paths)
  have flaky: "flaky_claude 0 ''P'' = Inr ''Here is the plan.''"
    "flaky_claude (Suc 0) (''P'' @ repair_suffix) = Inr ''```json\<newline>{}\<newline>```''"
    by (simp_all add: flaky_claude_def)
  have always: "prose_claude k p = Inr ''Here is the plan.''" for k p
    by (simp add: prose_claude_def)
  have json: "json_claude k p = Inr ''{}''" for k p
    by (simp add: json_claude_def)
  have never: "failing_claude k p = Inl TimeoutExpired" for k p
    by (simp add: failing_claude_def)
  note repaired = main_repair_once_errors_before_writes
    [OF surjective_pairing, of True "''out''" "''P''" flaky_claude loads_example
       "\<lambda>p. True" "\<lambda>t. True" empty_world, unfolded w list.size append_Nil]
  note direct = main_repair_once_errors_before_writes
    [OF surjective_pairing, of True "''out''" "''P''" json_claude loads_example
       "\<lambda>p. True" "\<lambda>t. True" empty_world, unfolded w list.size append_Nil]
  note twice = main_repair_once_errors_before_writes
    [OF surjective_pairing, of True "''out''" "''P''" prose_claude loads_example
       "\<lambda>p. True" "\<lambda>t. True" empty_world, unfolded w list.size append_Nil]
  note down = main_repair_once_errors_before_writes
    [OF surjective_pairing, of True "''out''" "''P''" failing_claude loads_example
       "\<lambda>p. True" "\<lambda>t. True" empty_world, unfolded w list.size append_Nil]
  note missing = main_repair_once_errors_before_writes
    [OF surjective_pairing, of False "''out''" "''P''" flaky_claude loads_example
       "\<lambda>p. True" "\<lambda>t. True" empty_world]
  let ?A = "main True ''out'' ''P'' flaky_claude loads_example (\<lambda>p. True) (\<lambda>t. True) empty_world"
  have "prompts (snd ?A) = [''P'', ''P'' @ repair_suffix]
      \<and> (fst ?A, files (snd ?A))
          = rendered_outputs (\<lambda>p. True) (\<lambda>t. True) ''out'' (PDict []) Map.empty"
    using repaired flaky prose fenced by blast
  then have a: "fst ?A = None \<and> prompts (snd ?A) = [''P'', ''P'' @ repair_suffix]
      \<and> files (snd ?A) = [''out/plan.md'' \<mapsto> ?concise, ''out/plan_with_evidence.md'' \<mapsto> ?cited]"
    by (simp add: outputs)
  let ?E = "main True ''out'' ''P'' json_claude loads_example (\<lambda>p. True) (\<lambda>t. True) empty_world"
  have "prompts (snd ?E) = [''P'']
      \<and> (fst ?E, files (snd ?E))
          = rendered_outputs (\<lambda>p. True) (\<lambda>t. True) ''out'' (PDict []) Map.empty"
    using direct json bare by blast
  then have e: "fst ?E = None \<and> prompts (snd ?E) = [''P'']"
    by (simp add: outputs)
  let ?B = "main True ''out'' ''P'' prose_claude loads_example (\<lambda>p. True) (\<lambda>t. True) empty_world"
  have b: "fst ?B = Some JSONDecodeError \<and> prompts (snd ?B) = [''P'', ''P'' @ repair_suffix]
      \<and> files (snd ?B) = Map.empty"
    using twice always prose by blast
  let ?C = "main True ''out'' ''P'' failing_claude loads_example (\<lambda>p. True) (\<lambda>t. True) empty_world"
  have c: "fst ?C = Some TimeoutExpired \<and> prompts (snd ?C) = [''P'']
      \<and> files (snd ?C) = Map.empty"
    using down never by blast
  have d: "main False ''out'' ''P'' flaky_claude loads_example (\<lambda>p. True) (\<lambda>t. True) empty_world
       = (Some SystemExit, empty_world)"
    using missing by (simp add: prod_eq_iff)
  show ?thesis
    using a e b c d flaky prose fenced by simp
qed

theorem main_outputs_counterexample:
  "files empty_world ''out/plan.md'' = None
   \<and> files empty_world ''out/plan_with_evidence.md'' = None
   \<and> fst (main True ''out'' ''P'' surrogate_claude loads_example (\<lambda>p. True) utf8_encodable
             empty_world)
       = Some UnicodeEncodeError
   \<and> files (snd (main True ''out'' ''P'' surrogate_claude loads_example (\<lambda>p. True) utf8_encodable
                   empty_world)) ''out/plan.md''
       = Some ''# Plan\<newline>## Objective\<newline>Unknown\<newline>\<newline>## Hypothesis\<newline>Unknown\<newline>\<newline>## Methodology\<newline>Unknown\<newline>\<newline>## Experiments\<newline>Unknown\<newline>''
   \<and> files (snd (main True ''out'' ''P'' surrogate_claude loads_example (\<lambda>p. True) utf8_encodable
                   empty_world)) ''out/plan_with_evidence.md''
       = Some []"
  by code_simp

section \<open>The concise document\<close>


section \<open>Properties of the concise renderer\<close>










section \<open>Quotes that are not strings\<close>

text \<open>
  \<open>normalize_quote\<close> calls \<open>strip\<close> on \<open>(q or "")\<close>, which is \<open>q\<close> itself when \<open>q\<close> is truthy.
  A truthy quote that is not a string (a non-zero number, \<open>True\<close>, a non-empty list or
  mapping) has no such method, and the \<open>AttributeError\<close> passes through the formatter, the
  extractors that call it and both renderers. The lemmas above describe the formatter, the
  extractors and the evidence document wherever the formatter returns; the theorems of
  this section evaluate the code on plans where it does not.
\<close>

lemma normalize_quote_returns_iff:
  "(\<exists>s. normalize_quote q = Inr s) \<longleftrightarrow> quote_ok q"
proof (cases "quote_ok q")
  case True
  then show ?thesis using normalize_quote_returns [of q] by simp
next
  case False
  then show ?thesis using normalize_quote_raises [of q] by simp
qed

text \<open>
  Claim C3 (fails on the code). By \<open>format_evidence_list_spec\<close> the formatter does what
  the claim says (no lines for a non-list, entries that are not mappings skipped, the words
  of the quote joined by single spaces, wordless quotes skipped, the first 40 words and
  \<open>...\<close> for a longer quote, input order, no deduplication) exactly when no entry has a
  truthy non-string quote. It does not treat every input so: an entry that is a mapping
  with the quote \<open>5\<close> is neither skipped nor formatted, the call raises and the line of
  the well-formed entry before it is lost with it. Besides, \<open>isinstance(page, int)\<close> holds
  of \<open>True\<close>, so a boolean page is printed as \<open>(p.True)\<close>, not as \<open>(p.?)\<close>.
\<close>

theorem format_evidence_list_raises:
  "format_evidence_list
     (PList [PDict [(''page'', PInt 3), (''quote'', PStr ''kept'')],
             PDict [(''page'', PInt 4), (''quote'', PInt 5)]])
     = Inl AttributeError
   \<and> format_evidence_list (PList [PDict [(''page'', PBool True), (''quote'', PStr ''x'')]])
     = Inr [''(p.True) '' @ [CHR 0x22] @ ''x'' @ [CHR 0x22]]"
  by code_simp

text \<open>
  Claim C4 (fails on the code). Whatever \<open>extract_list_evidence_lines\<close> returns is, item
  by item, the first two lines of the formatter with the label prefix removed
  (\<open>extract_list_evidence_lines_capped\<close>), and the experiments show at most two lines
  each (\<open>extract_experiments_text_spec\<close>). But it does not return on every Plan mapping:
  on a hypothesis item whose second evidence entry has a list as its quote it raises, and
  the line of the first entry is not returned.
\<close>

theorem extract_list_evidence_lines_raises:
  "extract_list_evidence_lines
     (PDict [(''hypothesis'', PDict [(''items'', PList
        [PDict [(''text'', PStr ''A''),
                (''evidence'', PList
                   [PDict [(''page'', PInt 1), (''quote'', PStr ''ok'')],
                    PDict [(''page'', PInt 2), (''quote'', PList [PStr ''x''])]])]])])])
     ''hypothesis''
     = Inl AttributeError"
  by code_simp

text \<open>
  Claim C5 (fails on the code). Whatever \<open>extract_experiments_text\<close> returns is
  \<open>"Unknown"\<close> or the blocks of the named experiments (\<open>extract_experiments_text_spec\<close>).
  But an experiment with a name and an evidence entry whose quote is the number \<open>7\<close>
  survives the name test and is not rendered as a block: the extractor formats the
  evidence before it looks at \<open>include_evidence\<close> and raises, with and without evidence
  requested.
\<close>

theorem extract_experiments_text_raises:
  "extract_experiments_text
     (PDict [(''experiments'', PDict [(''items'', PList
        [PDict [(''name'', PStr ''Ablation''),
                (''evidence'', PList [PDict [(''page'', PInt 1), (''quote'', PInt 7)]])]])])])
     False
     = Inl AttributeError
   \<and> extract_experiments_text
     (PDict [(''experiments'', PDict [(''items'', PList
        [PDict [(''name'', PStr ''Ablation''),
                (''evidence'', PList [PDict [(''page'', PInt 1), (''quote'', PInt 7)]])]])])])
     True
     = Inl AttributeError"
  by code_simp

text \<open>
  Claim C7 (fails on the code). Every document the evidence renderer returns ends with
  the Unknowns section the claim describes (\<open>unknowns_section_last\<close>). But on a Plan
  mapping with one unknown and an objective evidence entry whose quote is \<open>5\<close> it returns
  no document, hence no Unknowns section: it raises.
\<close>

theorem render_plan_md_with_evidence_raises:
  "render_plan_md_with_evidence
     (PDict [(''objective'', PDict
                [(''text'', PStr ''T''), (''evidence'', PList [PDict [(''quote'', PInt 5)]])]),
             (''unknowns'', PList [PStr ''seed''])])
     = Inl AttributeError"
  by code_simp

text \<open>
  Claim C10 (fails on the code). Every document the evidence renderer returns lists one
  line for each objective evidence entry with a wordy quote, however many there are
  (\<open>objective_evidence_uncapped\<close>). But the first objective evidence entry below has a
  quote that is non-empty after normalization and no line is rendered for it: the second
  entry's quote is a list, the objective extractor raises and so does the evidence
  renderer.
\<close>

theorem objective_evidence_raises:
  "extract_objective_with_evidence
     (PDict [(''objective'', PDict
        [(''text'', PStr ''T''),
         (''evidence'', PList
            [PDict [(''page'', PInt 1), (''quote'', PStr ''first'')],
             PDict [(''page'', PInt 2), (''quote'', PList [PStr ''second''])]])])])
     = Inl AttributeError
   \<and> render_plan_md_with_evidence
     (PDict [(''objective'', PDict
        [(''text'', PStr ''T''),
         (''evidence'', PList
            [PDict [(''page'', PInt 1), (''quote'', PStr ''first'')],
             PDict [(''page'', PInt 2), (''quote'', PList [PStr ''second''])]])])])
     = Inl AttributeError"
  by code_simp

end
